theory Spec2Isabelle
  imports Main
begin

section \<open>Data model of the powerup manager\<close>

text \<open>
  JavaScript objects are compared by identity (\<open>Array.prototype.indexOf\<close> uses \<open>===\<close>), so
  every object the manager handles is an address into a store: an \<open>objref\<close> names one
  active-powerup object, a \<open>sprite\<close> names one engine sprite, an \<open>effect\<close> names one
  effect function. Times and durations are milliseconds, as integers.
\<close>

type_synonym objref = nat
type_synonym sprite = nat
type_synonym effect = nat

text \<open>One entry of the table \<open>powerupData\<close> handed to the constructor.\<close>

record PowerupDefinition =
  pd_spriteKey :: string
  pd_duration :: int
  pd_effect :: effect

text \<open>The object literal \<open>{type, duration, effect, expirationTime}\<close> of \<open>activatePowerup\<close>.\<close>

record ActivePowerup =
  ap_type :: string
  ap_duration :: int
  ap_effect :: effect
  expirationTime :: int

text \<open>
  A sprite made by \<open>scene.physics.add.sprite\<close>: its position and texture key, the three
  data entries \<open>createPowerup\<close> attaches with \<open>setData\<close>, the \<open>immovable\<close> flag of
  its body, and the three flags \<open>disableBody(true, true)\<close> clears.
\<close>

record sprite_obj =
  sp_x :: int
  sp_y :: int
  sp_key :: string
  data_type :: string
  data_duration :: int
  data_effect :: effect
  immovable :: bool
  body_enable :: bool
  sp_active :: bool
  sp_visible :: bool

text \<open>
  \<open>createPowerup\<close> can also make a sprite from values that are not there (see
  \<open>get_property\<close> below): its texture key and its \<open>duration\<close> and \<open>effect\<close> data
  entries are then \<open>undefined\<close>, written \<open>None\<close>.
\<close>

record raw_sprite =
  rs_x :: int
  rs_y :: int
  rs_key :: "string option"
  rs_data_type :: string
  rs_data_duration :: "int option"
  rs_data_effect :: "effect option"
  rs_immovable :: bool
  rs_body_enable :: bool
  rs_active :: bool
  rs_visible :: bool

text \<open>
  One invocation of an effect function. \<open>activePowerup.effect(player, false)\<close> is a method
  call whose receiver is the active-powerup object; \<open>effect(player, true)\<close> is a plain call
  with no receiver.
\<close>

record call =
  receiver :: "objref option"
  fn :: effect
  subject :: sprite
  activating :: bool

text \<open>
  One pending \<open>scene.time.delayedCall(duration, this.deactivatePowerup.bind(this),
  [activePowerup, player], this)\<close>: the delay and the two arguments it will deliver.
\<close>

record timer_event =
  delay :: int
  target :: objref
  target_player :: sprite

text \<open>
  The manager and the scene it reaches into. \<open>powerupData\<close> and \<open>activePowerups\<close> are
  the manager's own fields; \<open>objects\<close> with \<open>nextObject\<close> is the store of active-powerup
  objects (a new object literal takes the next free address); \<open>player\<close>, \<open>now\<close>,
  \<open>sprites\<close>, \<open>overlaps\<close> and \<open>timers\<close> are \<open>scene.player\<close>, \<open>scene.time.now\<close> and
  what \<open>scene.physics.add.sprite\<close>, \<open>scene.physics.add.overlap\<close> and
  \<open>scene.time.delayedCall\<close> have recorded. The sprites are kept in two stores with one
  counter of handles: \<open>sprites\<close> holds those whose data entries are a type name, a number
  and a function, \<open>raw_sprites\<close> those made with \<open>undefined\<close> entries. \<open>warnings\<close> is the output of
  \<open>console.warn\<close>; \<open>calls\<close> is the trace of effect invocations; \<open>subjects\<close> is
  whatever gameplay state the effect functions modify.
\<close>

record 's world =
  powerupData :: "string \<rightharpoonup> PowerupDefinition"
  activePowerups :: "objref list"
  objects :: "objref \<Rightarrow> ActivePowerup"
  nextObject :: objref
  player :: sprite
  now :: int
  sprites :: "sprite \<Rightarrow> sprite_obj"
  raw_sprites :: "sprite \<rightharpoonup> raw_sprite"
  nextSprite :: sprite
  overlaps :: "(sprite \<times> sprite) list"
  timers :: "timer_event list"
  warnings :: "string list"
  calls :: "call list"
  subjects :: 's

text \<open>
  The effect functions are supplied by the caller, so what they do is a parameter: the
  state after the body of the function named by a call has run in a given state. An
  arbitrary parameter may do anything, including calling back into the manager.
\<close>

type_synonym 's effect_sem = "call \<Rightarrow> 's world \<Rightarrow> 's world"

section \<open>Array primitives\<close>

text \<open>\<open>Array.prototype.indexOf\<close>: the first index holding the element, or \<open>-1\<close>.\<close>

fun indexOf_from :: "'a list \<Rightarrow> 'a \<Rightarrow> int \<Rightarrow> int" where
  "indexOf_from [] a i = - 1"
| "indexOf_from (x # xs) a i = (if x = a then i else indexOf_from xs a (i + 1))"

definition indexOf :: "'a list \<Rightarrow> 'a \<Rightarrow> int" where
  "indexOf xs a = indexOf_from xs a 0"

text \<open>
  \<open>Array.prototype.splice(start, deleteCount)\<close> with no inserted items: a negative start
  counts from the end, a start beyond the end is the end.
\<close>

definition splice_array :: "'a list \<Rightarrow> int \<Rightarrow> nat \<Rightarrow> 'a list" where
  "splice_array xs start deleteCount =
     (let len = int (length xs);
          s = (if start < 0 then max (len + start) 0 else min start len)
      in take (nat s) xs @ drop (nat s + deleteCount) xs)"

section \<open>The manager's methods\<close>

text \<open>Calling an effect function: the call is appended to the trace, then its body runs.\<close>

definition invoke :: "'s effect_sem \<Rightarrow> call \<Rightarrow> 's world \<Rightarrow> 's world" where
  "invoke run c w = run c (w\<lparr>calls := calls w @ [c]\<rparr>)"

text \<open>\<open>constructor(scene, powerupData)\<close>, on the world that holds the scene.\<close>

definition PowerupManager :: "'s world \<Rightarrow> (string \<rightharpoonup> PowerupDefinition) \<Rightarrow> 's world" where
  "PowerupManager scene pdata = scene\<lparr>powerupData := pdata, activePowerups := []\<rparr>"

text \<open>The text of the warning: \<open>Powerup type "${type}" not found in powerup data.\<close>\<close>

definition warning_text :: "string \<Rightarrow> string" where
  "warning_text type =
     ''Powerup type '' @ [CHR 0x22] @ type @ [CHR 0x22] @ '' not found in powerup data.''"

text \<open>
  The table is a plain JavaScript object (the constructor documents it as an \<open>Object\<close>
  "containing data for each powerup type"), so the property read \<open>this.powerupData[type]\<close>
  follows the prototype chain: it finds the table's own entry, else the member of that name
  that every plain object inherits from \<open>Object.prototype\<close>, else it is \<open>undefined\<close>.
\<close>

definition object_prototype :: "string list" where
  "object_prototype =
     [''constructor'', ''hasOwnProperty'', ''isPrototypeOf'', ''propertyIsEnumerable'',
      ''toLocaleString'', ''toString'', ''valueOf'', ''__defineGetter__'',
      ''__defineSetter__'', ''__lookupGetter__'', ''__lookupSetter__'', ''__proto__'']"

datatype property = Undefined | Entry PowerupDefinition | Inherited string

definition get_property :: "(string \<rightharpoonup> PowerupDefinition) \<Rightarrow> string \<Rightarrow> property" where
  "get_property table name =
     (case table name of
        Some pdata \<Rightarrow> Entry pdata
      | None \<Rightarrow> if name \<in> set object_prototype then Inherited name else Undefined)"

text \<open>
  \<open>createPowerup(type, x, y)\<close>. The guard \<open>!this.powerupData[type]\<close> holds only of
  \<open>undefined\<close>: an entry is an object and an inherited member is a function or an object,
  both truthy. With an inherited member in the place of the definition, its \<open>spriteKey\<close>,
  \<open>duration\<close> and \<open>effect\<close> read as \<open>undefined\<close>; the sprite is made and watched all the
  same.
\<close>

definition createPowerup :: "string \<Rightarrow> int \<Rightarrow> int \<Rightarrow> 's world \<Rightarrow> 's world" where
  "createPowerup type x y w =
     (case get_property (powerupData w) type of
        Undefined \<Rightarrow> w\<lparr>warnings := warnings w @ [warning_text type]\<rparr>
      | Entry pdata \<Rightarrow>
          (let powerup = nextSprite w;
               obj = \<lparr>sp_x = x, sp_y = y, sp_key = pd_spriteKey pdata,
                      data_type = type, data_duration = pd_duration pdata,
                      data_effect = pd_effect pdata,
                      immovable = True, body_enable = True,
                      sp_active = True, sp_visible = True\<rparr>;
               w1 = w\<lparr>sprites := (sprites w)(powerup := obj), nextSprite := Suc powerup\<rparr>
           in w1\<lparr>overlaps := overlaps w1 @ [(player w1, powerup)]\<rparr>)
      | Inherited member \<Rightarrow>
          (let powerup = nextSprite w;
               obj = \<lparr>rs_x = x, rs_y = y, rs_key = None,
                      rs_data_type = type, rs_data_duration = None, rs_data_effect = None,
                      rs_immovable = True, rs_body_enable = True,
                      rs_active = True, rs_visible = True\<rparr>;
               w1 = w\<lparr>raw_sprites := (raw_sprites w)(powerup \<mapsto> obj),
                      nextSprite := Suc powerup\<rparr>
           in w1\<lparr>overlaps := overlaps w1 @ [(player w1, powerup)]\<rparr>))"

text \<open>\<open>sprite.disableBody(true, true)\<close>: the body is disabled, the sprite deactivated and hidden.\<close>

definition disableBody :: "sprite_obj \<Rightarrow> sprite_obj" where
  "disableBody s = s\<lparr>body_enable := False, sp_active := False, sp_visible := False\<rparr>"

text \<open>
  \<open>activatePowerup(player, powerup)\<close>, statement by statement, for a sprite that carries
  the three data entries (a sprite of the store \<open>sprites\<close>).
\<close>

definition activatePowerup :: "'s effect_sem \<Rightarrow> sprite \<Rightarrow> sprite \<Rightarrow> 's world \<Rightarrow> 's world" where
  "activatePowerup run plr powerup w =
     (let type = data_type (sprites w powerup);
          duration = data_duration (sprites w powerup);
          eff = data_effect (sprites w powerup);
          w1 = w\<lparr>sprites := (sprites w)(powerup := disableBody (sprites w powerup))\<rparr>;
          activePowerup = nextObject w1;
          w2 = w1\<lparr>objects := (objects w1)(activePowerup :=
                       \<lparr>ap_type = type, ap_duration = duration, ap_effect = eff,
                        expirationTime = now w1 + duration\<rparr>),
                   nextObject := Suc activePowerup\<rparr>;
          w3 = w2\<lparr>activePowerups := activePowerups w2 @ [activePowerup]\<rparr>;
          w4 = invoke run \<lparr>receiver = None, fn = eff, subject = plr, activating = True\<rparr> w3
      in w4\<lparr>timers := timers w4 @
                 [\<lparr>delay = duration, target = activePowerup, target_player = plr\<rparr>]\<rparr>)"

text \<open>
  The state in which the reversal effect of \<open>deactivatePowerup\<close> starts to run: the entry
  at \<open>index\<close> spliced out, the call appended to the trace.
\<close>

definition at_reversal :: "objref \<Rightarrow> sprite \<Rightarrow> int \<Rightarrow> 's world \<Rightarrow> 's world" where
  "at_reversal activePowerup plr index w =
     w\<lparr>activePowerups := splice_array (activePowerups w) index 1,
       calls := calls w @ [\<lparr>receiver = Some activePowerup,
                            fn = ap_effect (objects w activePowerup),
                            subject = plr, activating = False\<rparr>]\<rparr>"

text \<open>\<open>deactivatePowerup(activePowerup, player)\<close>.\<close>

definition deactivatePowerup :: "'s effect_sem \<Rightarrow> objref \<Rightarrow> sprite \<Rightarrow> 's world \<Rightarrow> 's world" where
  "deactivatePowerup run activePowerup plr w =
     (let index = indexOf (activePowerups w) activePowerup
      in if index \<noteq> - 1
         then (let w1 = w\<lparr>activePowerups := splice_array (activePowerups w) index 1\<rparr>
               in invoke run \<lparr>receiver = Some activePowerup,
                              fn = ap_effect (objects w1 activePowerup),
                              subject = plr, activating = False\<rparr> w1)
         else w)"

text \<open>
  \<open>update(time, delta)\<close>: the expired entries are filtered out of the array as it is on
  entry, then each is deactivated in turn with \<open>this.scene.player\<close>.
\<close>

definition update :: "'s effect_sem \<Rightarrow> int \<Rightarrow> int \<Rightarrow> 's world \<Rightarrow> 's world" where
  "update run time delta w =
     (let expiredPowerups =
            filter (\<lambda>powerup. time \<ge> expirationTime (objects w powerup)) (activePowerups w)
      in foldl (\<lambda>w' powerup. deactivatePowerup run powerup (player w') w') w expiredPowerups)"

section \<open>The host: timer and collision collaborators\<close>

text \<open>
  Modelled from the spec: the timer collaborator is the engine's, not the repository's. It
  "schedules a one-shot callback after N milliseconds, delivering supplied arguments": firing
  the pending call at position \<open>i\<close> takes it out of the queue and calls
  \<open>deactivatePowerup\<close> with the two arguments it holds. The host may fire a pending call at
  any moment (its scheduling granularity is not the manager's business).
\<close>

definition fire_timer :: "'s effect_sem \<Rightarrow> nat \<Rightarrow> 's world \<Rightarrow> 's world" where
  "fire_timer run i w =
     (if i < length (timers w)
      then (let t = timers w ! i
            in deactivatePowerup run (target t) (target_player t)
                 (w\<lparr>timers := take i (timers w) @ drop (Suc i) (timers w)\<rparr>))
      else w)"

text \<open>
  Everything that can happen to a manager: a spawn, the collision collaborator calling
  \<open>activatePowerup\<close>, the timer collaborator delivering a pending call, the per-frame
  \<open>update\<close>, a direct call of the public method \<open>deactivatePowerup\<close>, and the clock moving.
\<close>

datatype event =
    Spawn string int int
  | Overlap sprite sprite
  | TimerFires nat
  | Sweep int int
  | Deactivate objref sprite
  | Clock int

fun step :: "'s effect_sem \<Rightarrow> 's world \<Rightarrow> event \<Rightarrow> 's world" where
  "step run w (Spawn type x y) = createPowerup type x y w"
| "step run w (Overlap plr powerup) = activatePowerup run plr powerup w"
| "step run w (TimerFires i) = fire_timer run i w"
| "step run w (Sweep time delta) = update run time delta w"
| "step run w (Deactivate r plr) = deactivatePowerup run r plr w"
| "step run w (Clock t) = w\<lparr>now := t\<rparr>"

definition execute :: "'s effect_sem \<Rightarrow> event list \<Rightarrow> 's world \<Rightarrow> 's world" where
  "execute run es w = foldl (step run) w es"

section \<open>Vocabulary of the properties\<close>

text \<open>
  The contract of an effect function (spec, External Interfaces): it applies or reverses a
  modifier on the subject. Its body changes the gameplay state and nothing of the manager,
  the scene or the trace.
\<close>

definition effect_frame :: "'s effect_sem \<Rightarrow> bool" where
  "effect_frame run \<longleftrightarrow> (\<forall>c w. run c w = w\<lparr>subjects := subjects (run c w)\<rparr>)"

text \<open>The call \<open>activePowerup.effect(player, false)\<close> made for the entry \<open>r\<close>.\<close>

definition reversal :: "'s world \<Rightarrow> objref \<Rightarrow> sprite \<Rightarrow> call" where
  "reversal w r plr =
     \<lparr>receiver = Some r, fn = ap_effect (objects w r), subject = plr, activating = False\<rparr>"

text \<open>How many times a trace reverses the effect of the entry \<open>r\<close>.\<close>

definition reversals_of :: "objref \<Rightarrow> call list \<Rightarrow> nat" where
  "reversals_of r cs = length (filter (\<lambda>c. receiver c = Some r \<and> \<not> activating c) cs)"

text \<open>
  What holds of every state the methods produce: an object sits in the active set at most
  once, and neither the active set nor the trace mentions an object that is not yet created.
\<close>

definition well_formed :: "'s world \<Rightarrow> bool" where
  "well_formed w \<longleftrightarrow>
     distinct (activePowerups w) \<and>
     list_all (\<lambda>x. x < nextObject w) (activePowerups w) \<and>
     list_all (\<lambda>c. case receiver c of None \<Rightarrow> True | Some x \<Rightarrow> x < nextObject w) (calls w)"

text \<open>
  A reversal effect that calls back into the manager: its body is
  \<open>manager.deactivatePowerup(this, player)\<close>, with at most \<open>n\<close> nested calls.
\<close>

fun reentrant :: "nat \<Rightarrow> 's effect_sem" where
  "reentrant 0 c w = w"
| "reentrant (Suc n) c w =
     (case receiver c of
        None \<Rightarrow> w
      | Some r \<Rightarrow> if activating c then w else deactivatePowerup (reentrant n) r (subject c) w)"

text \<open>
  The two states of an active-powerup object (spec, Component Design): it is in the active
  set, or it is not (any more).
\<close>

datatype lifecycle = Active | Deactivated

definition state_of :: "objref \<Rightarrow> 's world \<Rightarrow> lifecycle" where
  "state_of r w = (if r \<in> set (activePowerups w) then Active else Deactivated)"

text \<open>
  The bookkeeping of one created object \<open>r\<close>: the trace holds no reversal for it while it is
  active and exactly one once it is deactivated.
\<close>

definition lifecycle_ok :: "objref \<Rightarrow> 's world \<Rightarrow> bool" where
  "lifecycle_ok r w \<longleftrightarrow>
     well_formed w \<and> r < nextObject w \<and>
     reversals_of r (calls w) = (case state_of r w of Active \<Rightarrow> 0 | Deactivated \<Rightarrow> 1)"

section \<open>A concrete scene\<close>

text \<open>
  The scenario of the spec: a table with a one-second speed powerup (and a two-second
  shield), a scene whose clock reads 5000, and effects that add to or take from a number.
\<close>

definition demo_table :: "string \<rightharpoonup> PowerupDefinition" where
  "demo_table =
     [''speed'' \<mapsto> \<lparr>pd_spriteKey = ''bolt'', pd_duration = 1000, pd_effect = 7\<rparr>,
      ''shield'' \<mapsto> \<lparr>pd_spriteKey = ''dome'', pd_duration = 2000, pd_effect = 8\<rparr>]"

definition demo_scene :: "int world" where
  "demo_scene =
     \<lparr>powerupData = Map.empty, activePowerups = [],
      objects = (\<lambda>_. \<lparr>ap_type = [], ap_duration = 0, ap_effect = 0, expirationTime = 0\<rparr>),
      nextObject = 0, player = 0, now = 5000,
      sprites = (\<lambda>_. \<lparr>sp_x = 0, sp_y = 0, sp_key = [], data_type = [], data_duration = 0,
                       data_effect = 0, immovable = False, body_enable = False,
                       sp_active = False, sp_visible = False\<rparr>),
      raw_sprites = Map.empty,
      nextSprite = 1, overlaps = [], timers = [], warnings = [], calls = [],
      subjects = 100\<rparr>"

definition demo_run :: "int effect_sem" where
  "demo_run c w =
     w\<lparr>subjects := (if activating c then subjects w + int (fn c) else subjects w - int (fn c))\<rparr>"

text \<open>The manager on the scene, with a speed powerup (sprite 1) and a shield (sprite 2) spawned.\<close>

definition demo_spawned :: "int world" where
  "demo_spawned =
     createPowerup ''shield'' 20 20
       (createPowerup ''speed'' 10 10 (PowerupManager demo_scene demo_table))"

text \<open>The player has run over the speed powerup: entry 0 is active.\<close>

definition demo_one :: "int world" where
  "demo_one = activatePowerup demo_run 0 1 demo_spawned"

text \<open>The player has run over both at the same tick: entries 0 and 1 are active.\<close>

definition demo_two :: "int world" where
  "demo_two = activatePowerup demo_run 0 2 demo_one"

section \<open>Facts about the array primitives and the methods\<close>


lemma indexOf_from_notin: "a \<notin> set xs \<Longrightarrow> indexOf_from xs a i = - 1"
  by (induction xs arbitrary: i) auto

lemma indexOf_from_in:
  "a \<in> set xs \<Longrightarrow> 0 \<le> i \<Longrightarrow>
     i \<le> indexOf_from xs a i \<and> indexOf_from xs a i < i + int (length xs)"
proof (induction xs arbitrary: i)
  case Nil
  then show ?case by simp
next
  case (Cons x xs)
  show ?case
  proof (cases "x = a")
    case True
    then show ?thesis by simp
  next
    case False
    with Cons.prems have "a \<in> set xs" by simp
    from Cons.IH [OF this, of "i + 1"] Cons.prems False show ?thesis by simp
  qed
qed

lemma indexOf_absent_iff: "indexOf xs a = - 1 \<longleftrightarrow> a \<notin> set xs"
proof
  assume h: "indexOf xs a = - 1"
  show "a \<notin> set xs"
  proof
    assume "a \<in> set xs"
    from indexOf_from_in [OF this, of 0] h show False by (simp add: indexOf_def)
  qed
next
  assume "a \<notin> set xs"
  then show "indexOf xs a = - 1" by (simp add: indexOf_def indexOf_from_notin)
qed

lemma indexOf_from_shift:
  "a \<in> set xs \<Longrightarrow> indexOf_from xs a i = i + indexOf_from xs a 0"
proof (induction xs arbitrary: i)
  case Nil
  then show ?case by simp
next
  case (Cons x xs)
  show ?case
  proof (cases "x = a")
    case True
    then show ?thesis by simp
  next
    case False
    with Cons.prems have m: "a \<in> set xs" by simp
    from Cons.IH [OF m, of "i + 1"] Cons.IH [OF m, of 1] False show ?thesis by simp
  qed
qed

lemma take_drop_indexOf:
  "a \<in> set xs \<Longrightarrow>
     take (nat (indexOf_from xs a 0)) xs @ drop (Suc (nat (indexOf_from xs a 0))) xs = remove1 a xs"
proof (induction xs)
  case Nil
  then show ?case by simp
next
  case (Cons x xs)
  show ?case
  proof (cases "x = a")
    case True
    then show ?thesis by simp
  next
    case False
    with Cons.prems have m: "a \<in> set xs" by simp
    have s: "indexOf_from xs a 1 = 1 + indexOf_from xs a 0"
      by (rule indexOf_from_shift [OF m])
    have nn: "0 \<le> indexOf_from xs a 0"
      using indexOf_from_in [OF m, of 0] by simp
    have "nat (1 + indexOf_from xs a 0) = Suc (nat (indexOf_from xs a 0))"
      using nn by simp
    with False s Cons.IH [OF m] show ?thesis by simp
  qed
qed

lemma splice_indexOf: "a \<in> set xs \<Longrightarrow> splice_array xs (indexOf xs a) (Suc 0) = remove1 a xs"
proof -
  assume m: "a \<in> set xs"
  from indexOf_from_in [OF m, of 0]
  have b: "0 \<le> indexOf_from xs a 0" "indexOf_from xs a 0 < int (length xs)" by simp_all
  then have "splice_array xs (indexOf xs a) (Suc 0) =
      take (nat (indexOf_from xs a 0)) xs @ drop (Suc (nat (indexOf_from xs a 0))) xs"
    by (simp add: splice_array_def indexOf_def Let_def min_def)
  with take_drop_indexOf [OF m] show ?thesis by simp
qed

lemma frame_run: "effect_frame run \<Longrightarrow> run c w = w\<lparr>subjects := subjects (run c w)\<rparr>"
  unfolding effect_frame_def by blast

lemma frame_fields:
  assumes "effect_frame run"
  shows "activePowerups (run c w) = activePowerups w"
    and "objects (run c w) = objects w"
    and "nextObject (run c w) = nextObject w"
    and "player (run c w) = player w"
    and "now (run c w) = now w"
    and "sprites (run c w) = sprites w"
    and "nextSprite (run c w) = nextSprite w"
    and "overlaps (run c w) = overlaps w"
    and "timers (run c w) = timers w"
    and "warnings (run c w) = warnings w"
    and "calls (run c w) = calls w"
    and "powerupData (run c w) = powerupData w"
proof -
  have e: "run c w = w\<lparr>subjects := subjects (run c w)\<rparr>"
    by (rule frame_run [OF assms])
  show "activePowerups (run c w) = activePowerups w" by (subst e) simp
  show "objects (run c w) = objects w" by (subst e) simp
  show "nextObject (run c w) = nextObject w" by (subst e) simp
  show "player (run c w) = player w" by (subst e) simp
  show "now (run c w) = now w" by (subst e) simp
  show "sprites (run c w) = sprites w" by (subst e) simp
  show "nextSprite (run c w) = nextSprite w" by (subst e) simp
  show "overlaps (run c w) = overlaps w" by (subst e) simp
  show "timers (run c w) = timers w" by (subst e) simp
  show "warnings (run c w) = warnings w" by (subst e) simp
  show "calls (run c w) = calls w" by (subst e) simp
  show "powerupData (run c w) = powerupData w" by (subst e) simp
qed

lemma deactivate_absent:
  "r \<notin> set (activePowerups w) \<Longrightarrow> deactivatePowerup run r plr w = w"
  by (simp add: deactivatePowerup_def indexOf_absent_iff)

lemma deactivate_present:
  "r \<in> set (activePowerups w) \<Longrightarrow>
     deactivatePowerup run r plr w =
       run (reversal w r plr)
         (w\<lparr>activePowerups := remove1 r (activePowerups w),
            calls := calls w @ [reversal w r plr]\<rparr>)"
  by (simp add: deactivatePowerup_def indexOf_absent_iff splice_indexOf invoke_def
      reversal_def Let_def)

lemma deactivate_fields:
  assumes f: "effect_frame run"
  shows "activePowerups (deactivatePowerup run r plr w) = remove1 r (activePowerups w)"
    and "calls (deactivatePowerup run r plr w) =
           calls w @ (if r \<in> set (activePowerups w) then [reversal w r plr] else [])"
    and "objects (deactivatePowerup run r plr w) = objects w"
    and "nextObject (deactivatePowerup run r plr w) = nextObject w"
    and "player (deactivatePowerup run r plr w) = player w"
    and "timers (deactivatePowerup run r plr w) = timers w"
    and "now (deactivatePowerup run r plr w) = now w"
  by (cases "r \<in> set (activePowerups w)";
      simp add: deactivate_absent deactivate_present frame_fields [OF f] remove1_idem)+


lemma deactivate_shape:
  assumes f: "effect_frame run"
  shows "\<exists>s. deactivatePowerup run r plr w =
           w\<lparr>activePowerups := remove1 r (activePowerups w),
             calls := calls w @ (if r \<in> set (activePowerups w) then [reversal w r plr] else []),
             subjects := s\<rparr>"
proof (cases "r \<in> set (activePowerups w)")
  case True
  let ?w1 = "w\<lparr>activePowerups := remove1 r (activePowerups w),
                calls := calls w @ [reversal w r plr]\<rparr>"
  have "deactivatePowerup run r plr w = run (reversal w r plr) ?w1"
    by (rule deactivate_present [OF True])
  also have "\<dots> = ?w1\<lparr>subjects := subjects (run (reversal w r plr) ?w1)\<rparr>"
    by (rule frame_run [OF f])
  finally show ?thesis using True by auto
next
  case False
  show ?thesis
    by (rule exI [of _ "subjects w"]) (simp add: deactivate_absent [OF False] False remove1_idem)
qed

lemma sweep_fold:
  assumes f: "effect_frame run"
  shows "activePowerups w = ys @ xs \<Longrightarrow> \<forall>y\<in>set ys. \<not> P y \<Longrightarrow>
     \<exists>s. foldl (\<lambda>w' powerup. deactivatePowerup run powerup (player w') w') w (filter P xs) =
          w\<lparr>activePowerups := ys @ filter (\<lambda>r. \<not> P r) xs,
            calls := calls w @ map (\<lambda>r. reversal w r (player w)) (filter P xs),
            subjects := s\<rparr>"
proof (induction xs arbitrary: w ys)
  case Nil
  show ?case
    by (rule exI [of _ "subjects w"]) (use Nil.prems(1) in simp)
next
  case (Cons x xs)
  show ?case
  proof (cases "P x")
    case True
    let ?D = "\<lambda>w' powerup. deactivatePowerup run powerup (player w') w'"
    from Cons.prems True have nin: "x \<notin> set ys" by auto
    have mem: "x \<in> set (activePowerups w)" using Cons.prems(1) by simp
    obtain s1 where d: "?D w x =
        w\<lparr>activePowerups := remove1 x (activePowerups w),
          calls := calls w @ [reversal w x (player w)], subjects := s1\<rparr>"
      using deactivate_shape [OF f, of x "player w" w] mem by auto
    have r1: "remove1 x (activePowerups w) = ys @ xs"
      using Cons.prems(1) nin by (simp add: remove1_append)
    have a1: "activePowerups (?D w x) = ys @ xs" by (simp add: d r1)
    from Cons.IH [OF a1 Cons.prems(2)] obtain s2 where
      ih: "foldl ?D (?D w x) (filter P xs) =
        (?D w x)\<lparr>activePowerups := ys @ filter (\<lambda>r. \<not> P r) xs,
          calls := calls (?D w x) @ map (\<lambda>r. reversal (?D w x) r (player (?D w x))) (filter P xs),
          subjects := s2\<rparr>" by blast
    have rv: "\<And>r. reversal (?D w x) r (player (?D w x)) = reversal w r (player w)"
      by (simp add: d reversal_def)
    have "foldl ?D w (filter P (x # xs)) = foldl ?D (?D w x) (filter P xs)"
      using True by simp
    also have "\<dots> = w\<lparr>activePowerups := ys @ filter (\<lambda>r. \<not> P r) (x # xs),
          calls := calls w @ map (\<lambda>r. reversal w r (player w)) (filter P (x # xs)),
          subjects := s2\<rparr>"
      unfolding ih rv using True by (simp add: d)
    finally show ?thesis by blast
  next
    case False
    have a1: "activePowerups w = (ys @ [x]) @ xs" using Cons.prems(1) by simp
    have p1: "\<forall>y\<in>set (ys @ [x]). \<not> P y" using Cons.prems(2) False by simp
    from Cons.IH [OF a1 p1] False show ?thesis by simp
  qed
qed

lemma update_shape:
  assumes f: "effect_frame run"
  shows "\<exists>s. update run time delta w =
     w\<lparr>activePowerups := filter (\<lambda>r. \<not> time \<ge> expirationTime (objects w r)) (activePowerups w),
       calls := calls w @ map (\<lambda>r. reversal w r (player w))
                  (filter (\<lambda>r. time \<ge> expirationTime (objects w r)) (activePowerups w)),
       subjects := s\<rparr>"
  using sweep_fold [OF f, of w "[]" "activePowerups w" "\<lambda>r. time \<ge> expirationTime (objects w r)"]
  by (simp add: update_def)


section \<open>The concrete scene, evaluated\<close>


lemma spawned_fields:
  "activePowerups demo_spawned = []" "nextObject demo_spawned = 0" "now demo_spawned = 5000"
  "sprites demo_spawned (Suc 0) = \<lparr>sp_x = 10, sp_y = 10, sp_key = ''bolt'', data_type = ''speed'',
      data_duration = 1000, data_effect = 7, immovable = True, body_enable = True,
      sp_active = True, sp_visible = True\<rparr>"
  "sprites demo_spawned 2 = \<lparr>sp_x = 20, sp_y = 20, sp_key = ''dome'', data_type = ''shield'',
      data_duration = 2000, data_effect = 8, immovable = True, body_enable = True,
      sp_active = True, sp_visible = True\<rparr>"
  "nextSprite demo_spawned = 3" "overlaps demo_spawned = [(0,1),(0,2)]" "player demo_spawned = 0"
  "calls demo_spawned = []" "timers demo_spawned = []" "warnings demo_spawned = []"
  "subjects demo_spawned = 100"
  by (simp_all add: demo_spawned_def createPowerup_def get_property_def PowerupManager_def demo_scene_def demo_table_def Let_def)

lemma one_fields:
  "activePowerups demo_one = [0]" "nextObject demo_one = 1" "now demo_one = 5000"
  "objects demo_one 0 = \<lparr>ap_type = ''speed'', ap_duration = 1000, ap_effect = 7, expirationTime = 6000\<rparr>"
  "calls demo_one = [\<lparr>receiver = None, fn = 7, subject = 0, activating = True\<rparr>]"
  "timers demo_one = [\<lparr>delay = 1000, target = 0, target_player = 0\<rparr>]"
  "subjects demo_one = 107" "player demo_one = 0"
  "sprites demo_one 2 = sprites demo_spawned 2"
  by (simp_all add: demo_one_def activatePowerup_def invoke_def demo_run_def disableBody_def Let_def spawned_fields)

lemma two_fields:
  "activePowerups demo_two = [0, 1]" "nextObject demo_two = 2" "now demo_two = 5000"
  "objects demo_two 0 = \<lparr>ap_type = ''speed'', ap_duration = 1000, ap_effect = 7, expirationTime = 6000\<rparr>"
  "objects demo_two (Suc 0) = \<lparr>ap_type = ''shield'', ap_duration = 2000, ap_effect = 8, expirationTime = 7000\<rparr>"
  "subjects demo_two = 115" "player demo_two = 0"
  "calls demo_two = [\<lparr>receiver = None, fn = 7, subject = 0, activating = True\<rparr>, \<lparr>receiver = None, fn = 8, subject = 0, activating = True\<rparr>]"
  by (simp_all add: demo_two_def activatePowerup_def invoke_def demo_run_def disableBody_def Let_def one_fields spawned_fields)

lemma demo_frame: "effect_frame demo_run"
  by (simp add: effect_frame_def demo_run_def)

section \<open>Spawning an unregistered type\<close>

text \<open>
  When the property read yields \<open>undefined\<close> (the type is neither an entry of the table nor a
  member inherited from \<open>Object.prototype\<close>), \<open>createPowerup\<close> appends the warning and does
  nothing else.
\<close>

lemma createPowerup_undefined_lookup:
  assumes "get_property (powerupData w) type = Undefined"
  shows "createPowerup type x y w = w\<lparr>warnings := warnings w @ [warning_text type]\<rparr>"
  using assms by (simp add: createPowerup_def)

lemma createPowerup_magnet:
  "createPowerup ''magnet'' 3 4 demo_spawned =
     demo_spawned\<lparr>warnings := [''Powerup type '' @ [CHR 0x22] @ ''magnet'' @ [CHR 0x22] @
                                 '' not found in powerup data.'']\<rparr>"
proof -
  have t: "powerupData demo_spawned = demo_table"
    by (simp add: demo_spawned_def createPowerup_def get_property_def PowerupManager_def
        demo_scene_def demo_table_def Let_def)
  have "get_property (powerupData demo_spawned) ''magnet'' = Undefined"
    unfolding t by (simp add: get_property_def demo_table_def object_prototype_def)
  then show ?thesis
    by (simp add: createPowerup_undefined_lookup spawned_fields warning_text_def)
qed

text \<open>
  Claim C5. For every type identifier absent from the definition table,
  \<open>createPowerup(type, x, y)\<close> emits the diagnostic warning and does nothing else. The code
  misses a case: the guard tests the truthiness of \<open>this.powerupData[type]\<close>, and for a name
  that a plain object inherits the read finds the inherited member. With the table of the
  concrete scene (entries \<open>speed\<close> and \<open>shield\<close> only), \<open>createPowerup('toString', 10, 10)\<close>
  is a call for a type absent from the table, and yet no warning is emitted, a sprite with an
  undefined texture key and undefined \<open>duration\<close> and \<open>effect\<close> entries is created under
  the next handle, and an overlap watch with the player is registered for it.
\<close>

theorem createPowerup_inherited_name:
  "powerupData demo_spawned ''toString'' = None
   \<and> warnings demo_spawned = []
   \<and> warnings (createPowerup ''toString'' 10 10 demo_spawned) = []
   \<and> nextSprite (createPowerup ''toString'' 10 10 demo_spawned) = 4
   \<and> raw_sprites (createPowerup ''toString'' 10 10 demo_spawned) 3 =
       Some \<lparr>rs_x = 10, rs_y = 10, rs_key = None, rs_data_type = ''toString'',
             rs_data_duration = None, rs_data_effect = None, rs_immovable = True,
             rs_body_enable = True, rs_active = True, rs_visible = True\<rparr>
   \<and> overlaps (createPowerup ''toString'' 10 10 demo_spawned) = [(0, 1), (0, 2), (0, 3)]
   \<and> createPowerup ''toString'' 10 10 demo_spawned \<noteq>
       demo_spawned\<lparr>warnings := warnings demo_spawned @ [warning_text ''toString'']\<rparr>"
proof -
  have t: "powerupData demo_spawned = demo_table"
    by (simp add: demo_spawned_def createPowerup_def get_property_def PowerupManager_def
        demo_scene_def demo_table_def Let_def)
  have absent: "powerupData demo_spawned ''toString'' = None"
    unfolding t by (simp add: demo_table_def)
  have g: "get_property (powerupData demo_spawned) ''toString'' = Inherited ''toString''"
    unfolding t by (simp add: get_property_def demo_table_def object_prototype_def)
  have w: "warnings (createPowerup ''toString'' 10 10 demo_spawned) = []"
    by (simp add: createPowerup_def g Let_def spawned_fields)
  have n: "nextSprite (createPowerup ''toString'' 10 10 demo_spawned) = 4"
    by (simp add: createPowerup_def g Let_def spawned_fields)
  have r: "raw_sprites (createPowerup ''toString'' 10 10 demo_spawned) 3 =
       Some \<lparr>rs_x = 10, rs_y = 10, rs_key = None, rs_data_type = ''toString'',
             rs_data_duration = None, rs_data_effect = None, rs_immovable = True,
             rs_body_enable = True, rs_active = True, rs_visible = True\<rparr>"
    by (simp add: createPowerup_def g Let_def spawned_fields)
  have o: "overlaps (createPowerup ''toString'' 10 10 demo_spawned) = [(0, 1), (0, 2), (0, 3)]"
    by (simp add: createPowerup_def g Let_def spawned_fields)
  have ne: "createPowerup ''toString'' 10 10 demo_spawned \<noteq>
       demo_spawned\<lparr>warnings := warnings demo_spawned @ [warning_text ''toString'']\<rparr>"
  proof
    assume "createPowerup ''toString'' 10 10 demo_spawned =
       demo_spawned\<lparr>warnings := warnings demo_spawned @ [warning_text ''toString'']\<rparr>"
    then have "nextSprite (createPowerup ''toString'' 10 10 demo_spawned) =
       nextSprite (demo_spawned\<lparr>warnings := warnings demo_spawned @ [warning_text ''toString'']\<rparr>)"
      by simp
    then show False by (simp add: n spawned_fields)
  qed
  from absent w n r o ne show ?thesis by (simp add: spawned_fields)
qed

section \<open>Idempotence of deactivation\<close>

text \<open>
  Claim C1. \<open>deactivatePowerup\<close> is idempotent. In a state where every object sits in the
  active set at most once and the effects keep to the subject, calling it twice in a row on
  the same entry (with any players) gives the state of the first call: the second call is a
  no-op. If the entry was absent, already the first call changes nothing. If it was present,
  the first call removes it and appends exactly one call \<open>effect(player, false)\<close> to the
  trace, and after the second call the trace still holds exactly that one reversal more.
\<close>

theorem deactivatePowerup_idempotent:
  assumes f: "effect_frame run" and d: "distinct (activePowerups w)"
  shows "deactivatePowerup run r plr' (deactivatePowerup run r plr w) = deactivatePowerup run r plr w
       \<and> (r \<notin> set (activePowerups w) \<longrightarrow> deactivatePowerup run r plr w = w)
       \<and> (r \<in> set (activePowerups w) \<longrightarrow>
            r \<notin> set (activePowerups (deactivatePowerup run r plr w))
          \<and> calls (deactivatePowerup run r plr w) = calls w @ [reversal w r plr]
          \<and> calls (deactivatePowerup run r plr' (deactivatePowerup run r plr w)) =
              calls w @ [reversal w r plr]
          \<and> reversals_of r (calls (deactivatePowerup run r plr' (deactivatePowerup run r plr w))) =
              reversals_of r (calls w) + 1)"
proof -
  let ?w1 = "deactivatePowerup run r plr w"
  obtain s where sh: "?w1 =
      w\<lparr>activePowerups := remove1 r (activePowerups w),
        calls := calls w @ (if r \<in> set (activePowerups w) then [reversal w r plr] else []),
        subjects := s\<rparr>"
    using deactivate_shape [OF f] by blast
  have gone: "r \<notin> set (activePowerups ?w1)"
    by (subst sh) (simp add: d)
  have second: "deactivatePowerup run r plr' ?w1 = ?w1"
    by (rule deactivate_absent [OF gone])
  have c1: "r \<in> set (activePowerups w) \<Longrightarrow> calls ?w1 = calls w @ [reversal w r plr]"
    by (subst sh) simp
  have cnt: "r \<in> set (activePowerups w) \<Longrightarrow> reversals_of r (calls ?w1) = reversals_of r (calls w) + 1"
    by (simp add: c1 reversals_of_def reversal_def)
  show ?thesis
    using gone second c1 cnt by (simp add: deactivate_absent)
qed

theorem deactivatePowerup_idempotent_witness:
  "effect_frame demo_run \<and> distinct (activePowerups demo_one) \<and> 0 \<in> set (activePowerups demo_one)
   \<and> activePowerups (deactivatePowerup demo_run 0 0 (deactivatePowerup demo_run 0 0 demo_one)) = []
   \<and> calls (deactivatePowerup demo_run 0 0 (deactivatePowerup demo_run 0 0 demo_one)) =
       [\<lparr>receiver = None, fn = 7, subject = 0, activating = True\<rparr>,
        \<lparr>receiver = Some 0, fn = 7, subject = 0, activating = False\<rparr>]"
proof -
  have d: "distinct (activePowerups demo_one)" by (simp add: one_fields)
  have m: "0 \<in> set (activePowerups demo_one)" by (simp add: one_fields)
  have a: "activePowerups (deactivatePowerup demo_run 0 0 demo_one) = []"
    by (simp add: deactivate_fields [OF demo_frame] one_fields)
  from deactivatePowerup_idempotent [OF demo_frame d, of 0 0 0] m a demo_frame d show ?thesis
    by (simp add: reversal_def one_fields)
qed

section \<open>Counting reversals; the shape of an activation\<close>

lemma reversals_of_append:
  "reversals_of r (cs @ cs') = reversals_of r cs + reversals_of r cs'"
  by (simp add: reversals_of_def)

lemma reversals_of_map:
  "reversals_of r (map (\<lambda>x. reversal w x plr) xs) = length (filter (\<lambda>x. x = r) xs)"
  by (induction xs) (simp_all add: reversals_of_def reversal_def)

lemma distinct_occurs_once:
  "distinct xs \<Longrightarrow> length (filter (\<lambda>x. x = r) (filter P xs)) = (if r \<in> set xs \<and> P r then 1 else 0)"
  by (induction xs) auto

lemma activate_shape:
  assumes f: "effect_frame run"
  shows "\<exists>s. activatePowerup run plr powerup w =
     w\<lparr>sprites := (sprites w)(powerup := disableBody (sprites w powerup)),
       objects := (objects w)(nextObject w :=
          \<lparr>ap_type = data_type (sprites w powerup),
           ap_duration = data_duration (sprites w powerup),
           ap_effect = data_effect (sprites w powerup),
           expirationTime = now w + data_duration (sprites w powerup)\<rparr>),
       nextObject := Suc (nextObject w),
       activePowerups := activePowerups w @ [nextObject w],
       calls := calls w @ [\<lparr>receiver = None, fn = data_effect (sprites w powerup),
                            subject = plr, activating = True\<rparr>],
       timers := timers w @ [\<lparr>delay = data_duration (sprites w powerup),
                              target = nextObject w, target_player = plr\<rparr>],
       subjects := s\<rparr>"
proof -
  let ?c = "\<lparr>receiver = None, fn = data_effect (sprites w powerup),
             subject = plr, activating = True\<rparr>"
  let ?w3 = "w\<lparr>sprites := (sprites w)(powerup := disableBody (sprites w powerup)),
       objects := (objects w)(nextObject w :=
          \<lparr>ap_type = data_type (sprites w powerup),
           ap_duration = data_duration (sprites w powerup),
           ap_effect = data_effect (sprites w powerup),
           expirationTime = now w + data_duration (sprites w powerup)\<rparr>),
       nextObject := Suc (nextObject w),
       activePowerups := activePowerups w @ [nextObject w],
       calls := calls w @ [?c]\<rparr>"
  have a: "activatePowerup run plr powerup w =
      (run ?c ?w3)\<lparr>timers := timers (run ?c ?w3) @
          [\<lparr>delay = data_duration (sprites w powerup),
            target = nextObject w, target_player = plr\<rparr>]\<rparr>"
    by (simp add: activatePowerup_def invoke_def Let_def)
  define s where "s = subjects (run ?c ?w3)"
  have r: "run ?c ?w3 = ?w3\<lparr>subjects := s\<rparr>"
    unfolding s_def by (rule frame_run [OF f])
  show ?thesis
    by (rule exI [of _ s]) (simp add: a r)
qed

section \<open>The sweep\<close>

text \<open>
  Claim C3. \<open>update(time, delta)\<close> deactivates exactly the entries whose
  \<open>expirationTime \<le> time\<close>. With effects that keep to the subject and an active set holding
  each object once: the active set after the call is the old one filtered to the entries with
  \<open>time < expirationTime\<close>, in the old order; the trace grows by one call
  \<open>effect(scene.player, false)\<close> per expired entry, in order. So an entry with
  \<open>time < expirationTime\<close> remains and no reversal is invoked for it, and an entry with
  \<open>time \<ge> expirationTime\<close> is removed and its reversal is fired, exactly once.
\<close>

theorem update_deactivates_exactly_expired:
  assumes f: "effect_frame run" and d: "distinct (activePowerups w)"
  shows "activePowerups (update run time delta w) =
           filter (\<lambda>r. time < expirationTime (objects w r)) (activePowerups w)
       \<and> calls (update run time delta w) =
           calls w @ map (\<lambda>r. reversal w r (player w))
                       (filter (\<lambda>r. time \<ge> expirationTime (objects w r)) (activePowerups w))
       \<and> (\<forall>r\<in>set (activePowerups w).
            (time < expirationTime (objects w r) \<longrightarrow>
               r \<in> set (activePowerups (update run time delta w))
             \<and> reversals_of r (calls (update run time delta w)) = reversals_of r (calls w))
          \<and> (time \<ge> expirationTime (objects w r) \<longrightarrow>
               r \<notin> set (activePowerups (update run time delta w))
             \<and> reversal w r (player w) \<in> set (calls (update run time delta w))
             \<and> reversals_of r (calls (update run time delta w)) = reversals_of r (calls w) + 1))"
proof -
  let ?E = "\<lambda>r. time \<ge> expirationTime (objects w r)"
  obtain s where sh: "update run time delta w =
     w\<lparr>activePowerups := filter (\<lambda>r. \<not> ?E r) (activePowerups w),
       calls := calls w @ map (\<lambda>r. reversal w r (player w)) (filter ?E (activePowerups w)),
       subjects := s\<rparr>"
    using update_shape [OF f] by blast
  have nE: "(\<lambda>r. \<not> ?E r) = (\<lambda>r. time < expirationTime (objects w r))"
    by (simp add: not_le)
  have a: "activePowerups (update run time delta w) =
           filter (\<lambda>r. time < expirationTime (objects w r)) (activePowerups w)"
    by (subst sh) (simp add: nE)
  have c: "calls (update run time delta w) =
           calls w @ map (\<lambda>r. reversal w r (player w)) (filter ?E (activePowerups w))"
    by (subst sh) simp
  have n: "\<And>r. reversals_of r (calls (update run time delta w)) =
      reversals_of r (calls w) + (if r \<in> set (activePowerups w) \<and> ?E r then 1 else 0)"
    unfolding c reversals_of_append reversals_of_map
    by (simp only: distinct_occurs_once [OF d])
  have m: "\<And>r. r \<in> set (activePowerups w) \<Longrightarrow> ?E r \<Longrightarrow>
      reversal w r (player w) \<in> set (calls (update run time delta w))"
    unfolding c by simp
  show ?thesis
    using a c n m by auto
qed

theorem update_deactivates_exactly_expired_witness:
  "effect_frame demo_run \<and> distinct (activePowerups demo_two)
   \<and> activePowerups (update demo_run 6000 16 demo_two) = [1]
   \<and> calls (update demo_run 6000 16 demo_two) =
       [\<lparr>receiver = None, fn = 7, subject = 0, activating = True\<rparr>,
        \<lparr>receiver = None, fn = 8, subject = 0, activating = True\<rparr>,
        \<lparr>receiver = Some 0, fn = 7, subject = 0, activating = False\<rparr>]"
proof -
  have d: "distinct (activePowerups demo_two)" by (simp add: two_fields)
  from update_deactivates_exactly_expired [OF demo_frame d, of 6000 16] demo_frame d
  show ?thesis by (simp add: two_fields reversal_def)
qed

lemma occurrences_of_expired:
  "P r \<Longrightarrow> filter (\<lambda>x. x = r) (filter P xs) = filter (\<lambda>x. x = r) xs"
  by (induction xs) auto

text \<open>
  Claim C7. The sweep is eager: for every active set and every time value, after
  \<open>update(time, delta)\<close> returns the active set holds no entry with
  \<open>expirationTime \<le> time\<close>, however many entries expire at that tick, and all of them have
  been removed and reversed within that one call: the active set is the old one without the
  expired entries, the trace has grown by the reversal of each expired entry on
  \<open>scene.player\<close>, in order, and every expired entry is out of the set with as many
  reversals more as it had places in the set (the effects keep to the subject; the active
  set may even hold an object twice).
\<close>

theorem update_sweeps_eagerly:
  assumes f: "effect_frame run"
  shows "(\<forall>r\<in>set (activePowerups (update run time delta w)).
            \<not> expirationTime (objects (update run time delta w) r) \<le> time)
       \<and> activePowerups (update run time delta w) =
           filter (\<lambda>r. time < expirationTime (objects w r)) (activePowerups w)
       \<and> calls (update run time delta w) =
           calls w @ map (\<lambda>r. reversal w r (player w))
                       (filter (\<lambda>r. expirationTime (objects w r) \<le> time) (activePowerups w))
       \<and> (\<forall>r\<in>set (activePowerups w). expirationTime (objects w r) \<le> time \<longrightarrow>
              r \<notin> set (activePowerups (update run time delta w))
            \<and> reversal w r (player w) \<in> set (calls (update run time delta w))
            \<and> reversals_of r (calls (update run time delta w)) =
                reversals_of r (calls w) + length (filter (\<lambda>x. x = r) (activePowerups w))
            \<and> reversals_of r (calls w) < reversals_of r (calls (update run time delta w)))"
proof -
  let ?E = "\<lambda>r. expirationTime (objects w r) \<le> time"
  obtain s where sh: "update run time delta w =
     w\<lparr>activePowerups := filter (\<lambda>r. \<not> time \<ge> expirationTime (objects w r)) (activePowerups w),
       calls := calls w @ map (\<lambda>r. reversal w r (player w))
                  (filter (\<lambda>r. time \<ge> expirationTime (objects w r)) (activePowerups w)),
       subjects := s\<rparr>"
    using update_shape [OF f] by blast
  have nE: "(\<lambda>r. \<not> time \<ge> expirationTime (objects w r)) =
      (\<lambda>r. time < expirationTime (objects w r))"
    by (simp add: not_le)
  have none: "\<forall>r\<in>set (activePowerups (update run time delta w)).
            \<not> expirationTime (objects (update run time delta w) r) \<le> time"
    by (subst sh, subst sh) simp
  have a: "activePowerups (update run time delta w) =
           filter (\<lambda>r. time < expirationTime (objects w r)) (activePowerups w)"
    by (subst sh) (simp add: nE)
  have c: "calls (update run time delta w) =
           calls w @ map (\<lambda>r. reversal w r (player w)) (filter ?E (activePowerups w))"
    by (subst sh) simp
  have gone: "\<And>r. ?E r \<Longrightarrow> r \<notin> set (activePowerups (update run time delta w))"
    unfolding a by simp
  have fired: "\<And>r. r \<in> set (activePowerups w) \<Longrightarrow> ?E r \<Longrightarrow>
      reversal w r (player w) \<in> set (calls (update run time delta w))"
    unfolding c by simp
  have cnt: "\<And>r. ?E r \<Longrightarrow> reversals_of r (calls (update run time delta w)) =
      reversals_of r (calls w) + length (filter (\<lambda>x. x = r) (activePowerups w))"
  proof -
    fix r
    assume e: "?E r"
    have "filter (\<lambda>x. x = r) (filter ?E (activePowerups w)) =
        filter (\<lambda>x. x = r) (activePowerups w)"
      using e by (rule occurrences_of_expired [of ?E])
    then show "reversals_of r (calls (update run time delta w)) =
        reversals_of r (calls w) + length (filter (\<lambda>x. x = r) (activePowerups w))"
      unfolding c reversals_of_append reversals_of_map by (simp only:)
  qed
  have pos: "\<And>r. r \<in> set (activePowerups w) \<Longrightarrow>
      0 < length (filter (\<lambda>x. x = r) (activePowerups w))"
    by (simp add: filter_empty_conv)
  have more: "\<And>r. r \<in> set (activePowerups w) \<Longrightarrow> ?E r \<Longrightarrow>
      reversals_of r (calls w) < reversals_of r (calls (update run time delta w))"
    using cnt pos by simp
  have each: "\<forall>r\<in>set (activePowerups w). expirationTime (objects w r) \<le> time \<longrightarrow>
              r \<notin> set (activePowerups (update run time delta w))
            \<and> reversal w r (player w) \<in> set (calls (update run time delta w))
            \<and> reversals_of r (calls (update run time delta w)) =
                reversals_of r (calls w) + length (filter (\<lambda>x. x = r) (activePowerups w))
            \<and> reversals_of r (calls w) < reversals_of r (calls (update run time delta w))"
    using gone fired cnt more by blast
  from none a c each show ?thesis by blast
qed

theorem update_sweeps_eagerly_witness:
  "effect_frame demo_run
   \<and> activePowerups (update demo_run 6000 16 demo_two) = [1]
   \<and> \<not> expirationTime (objects (update demo_run 6000 16 demo_two) 1) \<le> 6000
   \<and> activePowerups (update demo_run 7000 16 demo_two) = []
   \<and> calls (update demo_run 7000 16 demo_two) =
       [\<lparr>receiver = None, fn = 7, subject = 0, activating = True\<rparr>,
        \<lparr>receiver = None, fn = 8, subject = 0, activating = True\<rparr>,
        \<lparr>receiver = Some 0, fn = 7, subject = 0, activating = False\<rparr>,
        \<lparr>receiver = Some 1, fn = 8, subject = 0, activating = False\<rparr>]"
proof -
  have a: "activePowerups (update demo_run 6000 16 demo_two) = [1]"
    by (simp add: update_def deactivatePowerup_def indexOf_def splice_array_def invoke_def
        demo_run_def Let_def two_fields)
  note T = update_sweeps_eagerly [OF demo_frame, of 6000 16 demo_two]
  note U = update_sweeps_eagerly [OF demo_frame, of 7000 16 demo_two]
  have n: "\<not> expirationTime (objects (update demo_run 6000 16 demo_two) 1) \<le> 6000"
    using T [THEN conjunct1] a by simp
  have b: "activePowerups (update demo_run 7000 16 demo_two) = []"
    using U [THEN conjunct2, THEN conjunct1] by (simp add: two_fields)
  have c: "calls (update demo_run 7000 16 demo_two) =
       [\<lparr>receiver = None, fn = 7, subject = 0, activating = True\<rparr>,
        \<lparr>receiver = None, fn = 8, subject = 0, activating = True\<rparr>,
        \<lparr>receiver = Some 0, fn = 7, subject = 0, activating = False\<rparr>,
        \<lparr>receiver = Some 1, fn = 8, subject = 0, activating = False\<rparr>]"
    using U [THEN conjunct2, THEN conjunct2, THEN conjunct1]
    by (simp add: two_fields reversal_def)
  from demo_frame a n b c show ?thesis by simp
qed

section \<open>Which methods grow the active set\<close>

text \<open>
  Claim C10. Only \<open>activatePowerup\<close> grows the active set. For every input
  \<open>createPowerup\<close> leaves \<open>activePowerups\<close> unchanged; with effects that keep to the
  subject, \<open>update\<close> and \<open>deactivatePowerup\<close> never make it longer, and
  \<open>activatePowerup\<close> makes it longer by exactly one.
\<close>

theorem only_activatePowerup_grows:
  assumes f: "effect_frame run"
  shows "activePowerups (createPowerup type x y w) = activePowerups w
       \<and> length (activePowerups (update run time delta w)) \<le> length (activePowerups w)
       \<and> length (activePowerups (deactivatePowerup run r plr w)) \<le> length (activePowerups w)
       \<and> length (activePowerups (activatePowerup run plr powerup w)) =
           length (activePowerups w) + 1"
proof -
  have c: "activePowerups (createPowerup type x y w) = activePowerups w"
    by (simp add: createPowerup_def Let_def split: property.split)
  obtain s where sh: "update run time delta w =
     w\<lparr>activePowerups := filter (\<lambda>r. \<not> time \<ge> expirationTime (objects w r)) (activePowerups w),
       calls := calls w @ map (\<lambda>r. reversal w r (player w))
                  (filter (\<lambda>r. time \<ge> expirationTime (objects w r)) (activePowerups w)),
       subjects := s\<rparr>"
    using update_shape [OF f] by blast
  have u: "length (activePowerups (update run time delta w)) \<le> length (activePowerups w)"
    by (subst sh) simp
  have d: "length (activePowerups (deactivatePowerup run r plr w)) \<le> length (activePowerups w)"
    by (simp add: deactivate_fields [OF f] length_remove1)
  obtain s' where ash: "activatePowerup run plr powerup w =
     w\<lparr>sprites := (sprites w)(powerup := disableBody (sprites w powerup)),
       objects := (objects w)(nextObject w :=
          \<lparr>ap_type = data_type (sprites w powerup),
           ap_duration = data_duration (sprites w powerup),
           ap_effect = data_effect (sprites w powerup),
           expirationTime = now w + data_duration (sprites w powerup)\<rparr>),
       nextObject := Suc (nextObject w),
       activePowerups := activePowerups w @ [nextObject w],
       calls := calls w @ [\<lparr>receiver = None, fn = data_effect (sprites w powerup),
                            subject = plr, activating = True\<rparr>],
       timers := timers w @ [\<lparr>delay = data_duration (sprites w powerup),
                              target = nextObject w, target_player = plr\<rparr>],
       subjects := s'\<rparr>"
    using activate_shape [OF f] by blast
  have a: "length (activePowerups (activatePowerup run plr powerup w)) =
           length (activePowerups w) + 1"
    by (subst ash) simp
  from c u d a show ?thesis by simp
qed

theorem only_activatePowerup_grows_witness:
  "effect_frame demo_run
   \<and> activePowerups (createPowerup ''speed'' 1 1 demo_two) = [0, 1]
   \<and> length (activePowerups (update demo_run 6000 16 demo_two)) \<le> 2
   \<and> length (activePowerups (deactivatePowerup demo_run 0 0 demo_two)) \<le> 2
   \<and> length (activePowerups (activatePowerup demo_run 0 1 demo_two)) = 3"
  using only_activatePowerup_grows [OF demo_frame, of "''speed''" 1 1 demo_two 6000 16 0 0 1]
    demo_frame
  by (simp add: two_fields)

section \<open>What an activation and a sweep leave in each field\<close>

lemma activate_fields:
  assumes f: "effect_frame run"
  shows "activePowerups (activatePowerup run plr powerup w) = activePowerups w @ [nextObject w]"
    and "nextObject (activatePowerup run plr powerup w) = Suc (nextObject w)"
    and "objects (activatePowerup run plr powerup w) =
           (objects w)(nextObject w :=
              \<lparr>ap_type = data_type (sprites w powerup),
               ap_duration = data_duration (sprites w powerup),
               ap_effect = data_effect (sprites w powerup),
               expirationTime = now w + data_duration (sprites w powerup)\<rparr>)"
    and "sprites (activatePowerup run plr powerup w) =
           (sprites w)(powerup := disableBody (sprites w powerup))"
    and "now (activatePowerup run plr powerup w) = now w"
    and "player (activatePowerup run plr powerup w) = player w"
    and "calls (activatePowerup run plr powerup w) =
           calls w @ [\<lparr>receiver = None, fn = data_effect (sprites w powerup),
                       subject = plr, activating = True\<rparr>]"
    and "timers (activatePowerup run plr powerup w) =
           timers w @ [\<lparr>delay = data_duration (sprites w powerup),
                        target = nextObject w, target_player = plr\<rparr>]"
proof -
  obtain s where sh: "activatePowerup run plr powerup w =
     w\<lparr>sprites := (sprites w)(powerup := disableBody (sprites w powerup)),
       objects := (objects w)(nextObject w :=
          \<lparr>ap_type = data_type (sprites w powerup),
           ap_duration = data_duration (sprites w powerup),
           ap_effect = data_effect (sprites w powerup),
           expirationTime = now w + data_duration (sprites w powerup)\<rparr>),
       nextObject := Suc (nextObject w),
       activePowerups := activePowerups w @ [nextObject w],
       calls := calls w @ [\<lparr>receiver = None, fn = data_effect (sprites w powerup),
                            subject = plr, activating = True\<rparr>],
       timers := timers w @ [\<lparr>delay = data_duration (sprites w powerup),
                              target = nextObject w, target_player = plr\<rparr>],
       subjects := s\<rparr>"
    using activate_shape [OF f] by blast
  show "activePowerups (activatePowerup run plr powerup w) = activePowerups w @ [nextObject w]"
    and "nextObject (activatePowerup run plr powerup w) = Suc (nextObject w)"
    and "objects (activatePowerup run plr powerup w) =
           (objects w)(nextObject w :=
              \<lparr>ap_type = data_type (sprites w powerup),
               ap_duration = data_duration (sprites w powerup),
               ap_effect = data_effect (sprites w powerup),
               expirationTime = now w + data_duration (sprites w powerup)\<rparr>)"
    and "sprites (activatePowerup run plr powerup w) =
           (sprites w)(powerup := disableBody (sprites w powerup))"
    and "now (activatePowerup run plr powerup w) = now w"
    and "player (activatePowerup run plr powerup w) = player w"
    and "calls (activatePowerup run plr powerup w) =
           calls w @ [\<lparr>receiver = None, fn = data_effect (sprites w powerup),
                       subject = plr, activating = True\<rparr>]"
    and "timers (activatePowerup run plr powerup w) =
           timers w @ [\<lparr>delay = data_duration (sprites w powerup),
                        target = nextObject w, target_player = plr\<rparr>]"
    unfolding sh by simp_all
qed

lemma update_fields:
  assumes f: "effect_frame run"
  shows "activePowerups (update run time delta w) =
           filter (\<lambda>r. time < expirationTime (objects w r)) (activePowerups w)"
    and "calls (update run time delta w) =
           calls w @ map (\<lambda>r. reversal w r (player w))
                       (filter (\<lambda>r. time \<ge> expirationTime (objects w r)) (activePowerups w))"
    and "objects (update run time delta w) = objects w"
    and "nextObject (update run time delta w) = nextObject w"
proof -
  obtain s where sh: "update run time delta w =
     w\<lparr>activePowerups := filter (\<lambda>r. \<not> time \<ge> expirationTime (objects w r)) (activePowerups w),
       calls := calls w @ map (\<lambda>r. reversal w r (player w))
                  (filter (\<lambda>r. time \<ge> expirationTime (objects w r)) (activePowerups w)),
       subjects := s\<rparr>"
    using update_shape [OF f] by blast
  have nE: "(\<lambda>r. \<not> time \<ge> expirationTime (objects w r)) = (\<lambda>r. time < expirationTime (objects w r))"
    by (simp add: not_le)
  show "activePowerups (update run time delta w) =
           filter (\<lambda>r. time < expirationTime (objects w r)) (activePowerups w)"
    by (subst sh) (simp add: nE)
  show "calls (update run time delta w) =
           calls w @ map (\<lambda>r. reversal w r (player w))
                       (filter (\<lambda>r. time \<ge> expirationTime (objects w r)) (activePowerups w))"
    by (subst sh) simp
  show "objects (update run time delta w) = objects w" by (subst sh) simp
  show "nextObject (update run time delta w) = nextObject w" by (subst sh) simp
qed

lemma remove1_split: "r \<notin> set pre \<Longrightarrow> remove1 r (pre @ r # post) = pre @ post"
  by (simp add: remove1_append)

lemma reversals_of_other:
  "x \<noteq> r \<Longrightarrow> reversals_of x (cs @ [reversal w r plr]) = reversals_of x cs"
  by (simp add: reversals_of_def reversal_def)


lemma again_fields:
  "activePowerups (createPowerup ''speed'' 30 30 demo_one) = [0]"
  "nextObject (createPowerup ''speed'' 30 30 demo_one) = 1"
  "now (createPowerup ''speed'' 30 30 demo_one) = 5000"
  "objects (createPowerup ''speed'' 30 30 demo_one) 0 =
     \<lparr>ap_type = ''speed'', ap_duration = 1000, ap_effect = 7, expirationTime = 6000\<rparr>"
  "sprites (createPowerup ''speed'' 30 30 demo_one) 3 =
     \<lparr>sp_x = 30, sp_y = 30, sp_key = ''bolt'', data_type = ''speed'',
      data_duration = 1000, data_effect = 7, immovable = True, body_enable = True,
      sp_active = True, sp_visible = True\<rparr>"
  "calls (createPowerup ''speed'' 30 30 demo_one) =
     [\<lparr>receiver = None, fn = 7, subject = 0, activating = True\<rparr>]"
  "timers (createPowerup ''speed'' 30 30 demo_one) =
     [\<lparr>delay = 1000, target = 0, target_player = 0\<rparr>]"
proof -
  have p: "powerupData demo_one ''speed'' =
      Some \<lparr>pd_spriteKey = ''bolt'', pd_duration = 1000, pd_effect = 7\<rparr>"
    by (simp add: demo_one_def activatePowerup_def invoke_def demo_run_def Let_def
        demo_spawned_def createPowerup_def get_property_def PowerupManager_def demo_scene_def demo_table_def)
  have n: "nextSprite demo_one = 3"
    by (simp add: demo_one_def activatePowerup_def invoke_def demo_run_def Let_def spawned_fields)
  show "activePowerups (createPowerup ''speed'' 30 30 demo_one) = [0]"
    "nextObject (createPowerup ''speed'' 30 30 demo_one) = 1"
    "now (createPowerup ''speed'' 30 30 demo_one) = 5000"
    "objects (createPowerup ''speed'' 30 30 demo_one) 0 =
       \<lparr>ap_type = ''speed'', ap_duration = 1000, ap_effect = 7, expirationTime = 6000\<rparr>"
    "sprites (createPowerup ''speed'' 30 30 demo_one) 3 =
       \<lparr>sp_x = 30, sp_y = 30, sp_key = ''bolt'', data_type = ''speed'',
        data_duration = 1000, data_effect = 7, immovable = True, body_enable = True,
        sp_active = True, sp_visible = True\<rparr>"
    "calls (createPowerup ''speed'' 30 30 demo_one) =
       [\<lparr>receiver = None, fn = 7, subject = 0, activating = True\<rparr>]"
    "timers (createPowerup ''speed'' 30 30 demo_one) =
       [\<lparr>delay = 1000, target = 0, target_player = 0\<rparr>]"
    by (simp_all add: createPowerup_def get_property_def p n Let_def one_fields)
qed

section \<open>Activation\<close>

text \<open>
  Claim C4. For every powerup sprite carrying the (type, duration, effect) data,
  \<open>activatePowerup(player, powerup)\<close> disables the sprite, appends to the active set exactly
  one new object (one that was not in the set) whose \<open>expirationTime\<close> is the current time
  plus the duration, invokes \<open>effect(player, true)\<close> exactly once before it returns, and
  schedules one deferred call of \<open>deactivatePowerup\<close> for that object and that player after
  \<open>duration\<close> milliseconds; the active set is longer by exactly one. (The effects keep to the
  subject; the objects in the active set are objects already created.)
\<close>

theorem activatePowerup_activates:
  assumes f: "effect_frame run"
    and fresh: "list_all (\<lambda>x. x < nextObject w) (activePowerups w)"
  shows "sprites (activatePowerup run plr powerup w) powerup = disableBody (sprites w powerup)
       \<and> \<not> body_enable (sprites (activatePowerup run plr powerup w) powerup)
       \<and> activePowerups (activatePowerup run plr powerup w) = activePowerups w @ [nextObject w]
       \<and> nextObject w \<notin> set (activePowerups w)
       \<and> length (activePowerups (activatePowerup run plr powerup w)) =
           length (activePowerups w) + 1
       \<and> objects (activatePowerup run plr powerup w) (nextObject w) =
           \<lparr>ap_type = data_type (sprites w powerup),
            ap_duration = data_duration (sprites w powerup),
            ap_effect = data_effect (sprites w powerup),
            expirationTime = now w + data_duration (sprites w powerup)\<rparr>
       \<and> calls (activatePowerup run plr powerup w) =
           calls w @ [\<lparr>receiver = None, fn = data_effect (sprites w powerup),
                       subject = plr, activating = True\<rparr>]
       \<and> timers (activatePowerup run plr powerup w) =
           timers w @ [\<lparr>delay = data_duration (sprites w powerup),
                        target = nextObject w, target_player = plr\<rparr>]"
proof -
  obtain s where sh: "activatePowerup run plr powerup w =
     w\<lparr>sprites := (sprites w)(powerup := disableBody (sprites w powerup)),
       objects := (objects w)(nextObject w :=
          \<lparr>ap_type = data_type (sprites w powerup),
           ap_duration = data_duration (sprites w powerup),
           ap_effect = data_effect (sprites w powerup),
           expirationTime = now w + data_duration (sprites w powerup)\<rparr>),
       nextObject := Suc (nextObject w),
       activePowerups := activePowerups w @ [nextObject w],
       calls := calls w @ [\<lparr>receiver = None, fn = data_effect (sprites w powerup),
                            subject = plr, activating = True\<rparr>],
       timers := timers w @ [\<lparr>delay = data_duration (sprites w powerup),
                              target = nextObject w, target_player = plr\<rparr>],
       subjects := s\<rparr>"
    using activate_shape [OF f] by blast
  have new: "nextObject w \<notin> set (activePowerups w)"
    using fresh by (auto simp: list_all_iff)
  show ?thesis
    unfolding sh using new by (simp add: disableBody_def)
qed

theorem activatePowerup_activates_witness:
  "effect_frame demo_run \<and> list_all (\<lambda>x. x < nextObject demo_one) (activePowerups demo_one)
   \<and> sprites (activatePowerup demo_run 0 2 demo_one) 2 =
       \<lparr>sp_x = 20, sp_y = 20, sp_key = ''dome'', data_type = ''shield'',
        data_duration = 2000, data_effect = 8, immovable = True, body_enable = False,
        sp_active = False, sp_visible = False\<rparr>
   \<and> activePowerups (activatePowerup demo_run 0 2 demo_one) = [0, 1]
   \<and> objects (activatePowerup demo_run 0 2 demo_one) 1 =
       \<lparr>ap_type = ''shield'', ap_duration = 2000, ap_effect = 8, expirationTime = 7000\<rparr>
   \<and> calls (activatePowerup demo_run 0 2 demo_one) =
       [\<lparr>receiver = None, fn = 7, subject = 0, activating = True\<rparr>,
        \<lparr>receiver = None, fn = 8, subject = 0, activating = True\<rparr>]
   \<and> timers (activatePowerup demo_run 0 2 demo_one) =
       [\<lparr>delay = 1000, target = 0, target_player = 0\<rparr>,
        \<lparr>delay = 2000, target = 1, target_player = 0\<rparr>]"
proof -
  have h: "list_all (\<lambda>x. x < nextObject demo_one) (activePowerups demo_one)"
    by (simp add: one_fields)
  from activatePowerup_activates [OF demo_frame h, of 0 2] demo_frame h
  show ?thesis by (simp add: one_fields spawned_fields disableBody_def)
qed

text \<open>
  Claim C8. \<open>activatePowerup\<close> has no guard against a type that is already active: in every
  state whose active set holds an entry of some type, activating another sprite of that type
  appends a second, different object of the same type with its own expiration time, leaves the
  first entry as it was (no refresh), invokes \<open>effect(player, true)\<close> again and schedules a
  second deferred call.
\<close>

theorem activatePowerup_stacks:
  assumes f: "effect_frame run"
    and fresh: "list_all (\<lambda>x. x < nextObject w) (activePowerups w)"
    and held: "r0 \<in> set (activePowerups w)"
    and same: "ap_type (objects w r0) = data_type (sprites w powerup)"
  shows "activePowerups (activatePowerup run plr powerup w) = activePowerups w @ [nextObject w]
       \<and> nextObject w \<noteq> r0
       \<and> ap_type (objects (activatePowerup run plr powerup w) (nextObject w)) =
           ap_type (objects w r0)
       \<and> expirationTime (objects (activatePowerup run plr powerup w) (nextObject w)) =
           now w + data_duration (sprites w powerup)
       \<and> objects (activatePowerup run plr powerup w) r0 = objects w r0
       \<and> calls (activatePowerup run plr powerup w) =
           calls w @ [\<lparr>receiver = None, fn = data_effect (sprites w powerup),
                       subject = plr, activating = True\<rparr>]
       \<and> timers (activatePowerup run plr powerup w) =
           timers w @ [\<lparr>delay = data_duration (sprites w powerup),
                        target = nextObject w, target_player = plr\<rparr>]"
proof -
  obtain s where sh: "activatePowerup run plr powerup w =
     w\<lparr>sprites := (sprites w)(powerup := disableBody (sprites w powerup)),
       objects := (objects w)(nextObject w :=
          \<lparr>ap_type = data_type (sprites w powerup),
           ap_duration = data_duration (sprites w powerup),
           ap_effect = data_effect (sprites w powerup),
           expirationTime = now w + data_duration (sprites w powerup)\<rparr>),
       nextObject := Suc (nextObject w),
       activePowerups := activePowerups w @ [nextObject w],
       calls := calls w @ [\<lparr>receiver = None, fn = data_effect (sprites w powerup),
                            subject = plr, activating = True\<rparr>],
       timers := timers w @ [\<lparr>delay = data_duration (sprites w powerup),
                              target = nextObject w, target_player = plr\<rparr>],
       subjects := s\<rparr>"
    using activate_shape [OF f] by blast
  have ne: "nextObject w \<noteq> r0"
    using fresh held by (auto simp: list_all_iff)
  show ?thesis
    unfolding sh using ne same by simp
qed

theorem activatePowerup_stacks_witness:
  "effect_frame demo_run
   \<and> list_all (\<lambda>x. x < nextObject (createPowerup ''speed'' 30 30 demo_one))
        (activePowerups (createPowerup ''speed'' 30 30 demo_one))
   \<and> 0 \<in> set (activePowerups (createPowerup ''speed'' 30 30 demo_one))
   \<and> ap_type (objects (createPowerup ''speed'' 30 30 demo_one) 0) =
       data_type (sprites (createPowerup ''speed'' 30 30 demo_one) 3)
   \<and> activePowerups (activatePowerup demo_run 0 3 (createPowerup ''speed'' 30 30 demo_one)) = [0, 1]
   \<and> ap_type (objects (activatePowerup demo_run 0 3 (createPowerup ''speed'' 30 30 demo_one)) 1) =
       ''speed''
   \<and> expirationTime (objects (activatePowerup demo_run 0 3 (createPowerup ''speed'' 30 30 demo_one)) 0) =
       6000
   \<and> calls (activatePowerup demo_run 0 3 (createPowerup ''speed'' 30 30 demo_one)) =
       [\<lparr>receiver = None, fn = 7, subject = 0, activating = True\<rparr>,
        \<lparr>receiver = None, fn = 7, subject = 0, activating = True\<rparr>]
   \<and> timers (activatePowerup demo_run 0 3 (createPowerup ''speed'' 30 30 demo_one)) =
       [\<lparr>delay = 1000, target = 0, target_player = 0\<rparr>,
        \<lparr>delay = 1000, target = 1, target_player = 0\<rparr>]"
proof -
  let ?w = "createPowerup ''speed'' 30 30 demo_one"
  have h: "list_all (\<lambda>x. x < nextObject ?w) (activePowerups ?w)"
    by (simp add: again_fields)
  have m: "0 \<in> set (activePowerups ?w)" by (simp add: again_fields)
  have t: "ap_type (objects ?w 0) = data_type (sprites ?w 3)" by (simp add: again_fields)
  from activatePowerup_stacks [OF demo_frame h m t, of 0] demo_frame h m t
  show ?thesis by (simp add: again_fields)
qed

section \<open>Removal by identity\<close>

text \<open>
  Claim C6. \<open>deactivatePowerup\<close> removes by identity. Whatever the other entries are (of the
  same type or even equal field by field), deactivating the entry \<open>r\<close> that sits between
  \<open>pre\<close> and \<open>post\<close> leaves exactly \<open>pre @ post\<close>, changes no stored object, and fires the
  reversal of \<open>r\<close> and of no other entry. In particular, when two powerups are activated at
  the same tick, each is in the active set after a sweep exactly when the sweep's time is
  before its own expiration time, and deactivating one leaves the other.
\<close>

theorem deactivatePowerup_removes_by_identity:
  assumes f: "effect_frame run"
    and fresh: "list_all (\<lambda>x. x < nextObject w) (activePowerups w)"
  shows "(\<forall>pre post. activePowerups w = pre @ r # post \<and> r \<notin> set pre \<longrightarrow>
            activePowerups (deactivatePowerup run r plr w) = pre @ post
          \<and> objects (deactivatePowerup run r plr w) = objects w
          \<and> calls (deactivatePowerup run r plr w) = calls w @ [reversal w r plr]
          \<and> (\<forall>x. x \<noteq> r \<longrightarrow> reversals_of x (calls (deactivatePowerup run r plr w)) =
                               reversals_of x (calls w)))
       \<and> (let w2 = activatePowerup run plr pb (activatePowerup run plr pa w);
               r1 = nextObject w; r2 = Suc (nextObject w);
               e1 = now w + data_duration (sprites w pa);
               e2 = now w + data_duration (sprites w pb)
           in activePowerups w2 = activePowerups w @ [r1, r2]
            \<and> expirationTime (objects w2 r1) = e1
            \<and> expirationTime (objects w2 r2) = e2
            \<and> (\<forall>time delta.
                 (r1 \<in> set (activePowerups (update run time delta w2)) \<longleftrightarrow> time < e1)
               \<and> (r2 \<in> set (activePowerups (update run time delta w2)) \<longleftrightarrow> time < e2))
            \<and> activePowerups (deactivatePowerup run r1 plr w2) = activePowerups w @ [r2]
            \<and> activePowerups (deactivatePowerup run r2 plr w2) = activePowerups w @ [r1])"
proof -
  have part1: "\<And>pre post. activePowerups w = pre @ r # post \<Longrightarrow> r \<notin> set pre \<Longrightarrow>
            activePowerups (deactivatePowerup run r plr w) = pre @ post
          \<and> objects (deactivatePowerup run r plr w) = objects w
          \<and> calls (deactivatePowerup run r plr w) = calls w @ [reversal w r plr]
          \<and> (\<forall>x. x \<noteq> r \<longrightarrow> reversals_of x (calls (deactivatePowerup run r plr w)) =
                               reversals_of x (calls w))"
    by (simp add: deactivate_fields [OF f] remove1_split reversals_of_other)
  let ?w1 = "activatePowerup run plr pa w"
  let ?w2 = "activatePowerup run plr pb ?w1"
  let ?r1 = "nextObject w" and ?r2 = "Suc (nextObject w)"
  have n1: "?r1 \<notin> set (activePowerups w)" and n2: "?r2 \<notin> set (activePowerups w)"
    using fresh by (auto simp: list_all_iff)
  have a2: "activePowerups ?w2 = activePowerups w @ [?r1, ?r2]"
    by (simp add: activate_fields [OF f])
  have e1: "expirationTime (objects ?w2 ?r1) = now w + data_duration (sprites w pa)"
    by (simp add: activate_fields [OF f])
  have e2: "expirationTime (objects ?w2 ?r2) = now w + data_duration (sprites w pb)"
    by (simp add: activate_fields [OF f] disableBody_def)
  have u: "\<And>time delta x. x \<in> set (activePowerups (update run time delta ?w2)) \<longleftrightarrow>
      x \<in> set (activePowerups ?w2) \<and> time < expirationTime (objects ?w2 x)"
    by (simp add: update_fields [OF f])
  have u1: "\<And>time delta. ?r1 \<in> set (activePowerups (update run time delta ?w2)) \<longleftrightarrow>
      time < now w + data_duration (sprites w pa)"
    unfolding u e1 a2 by simp
  have u2: "\<And>time delta. ?r2 \<in> set (activePowerups (update run time delta ?w2)) \<longleftrightarrow>
      time < now w + data_duration (sprites w pb)"
    unfolding u e2 a2 by simp
  have k1: "activePowerups (deactivatePowerup run ?r1 plr ?w2) = activePowerups w @ [?r2]"
    unfolding deactivate_fields [OF f] a2 using n1 by (simp add: remove1_append)
  have k2: "activePowerups (deactivatePowerup run ?r2 plr ?w2) = activePowerups w @ [?r1]"
    unfolding deactivate_fields [OF f] a2 using n2 by (simp add: remove1_append)
  have P1: "\<forall>pre post. activePowerups w = pre @ r # post \<and> r \<notin> set pre \<longrightarrow>
            activePowerups (deactivatePowerup run r plr w) = pre @ post
          \<and> objects (deactivatePowerup run r plr w) = objects w
          \<and> calls (deactivatePowerup run r plr w) = calls w @ [reversal w r plr]
          \<and> (\<forall>x. x \<noteq> r \<longrightarrow> reversals_of x (calls (deactivatePowerup run r plr w)) =
                               reversals_of x (calls w))"
    using part1 by blast
  have P2: "let w2 = activatePowerup run plr pb (activatePowerup run plr pa w);
               r1 = nextObject w; r2 = Suc (nextObject w);
               e1 = now w + data_duration (sprites w pa);
               e2 = now w + data_duration (sprites w pb)
           in activePowerups w2 = activePowerups w @ [r1, r2]
            \<and> expirationTime (objects w2 r1) = e1
            \<and> expirationTime (objects w2 r2) = e2
            \<and> (\<forall>time delta.
                 (r1 \<in> set (activePowerups (update run time delta w2)) \<longleftrightarrow> time < e1)
               \<and> (r2 \<in> set (activePowerups (update run time delta w2)) \<longleftrightarrow> time < e2))
            \<and> activePowerups (deactivatePowerup run r1 plr w2) = activePowerups w @ [r2]
            \<and> activePowerups (deactivatePowerup run r2 plr w2) = activePowerups w @ [r1]"
    unfolding Let_def using a2 e1 e2 u1 u2 k1 k2 by simp
  show ?thesis by (rule conjI [OF P1 P2])
qed

theorem deactivatePowerup_removes_by_identity_witness:
  "effect_frame demo_run
   \<and> list_all (\<lambda>x. x < nextObject demo_two) (activePowerups demo_two)
   \<and> list_all (\<lambda>x. x < nextObject demo_spawned) (activePowerups demo_spawned)
   \<and> activePowerups demo_two = [] @ 0 # [1]
   \<and> activePowerups (deactivatePowerup demo_run 0 0 demo_two) = [1]
   \<and> reversals_of 1 (calls (deactivatePowerup demo_run 0 0 demo_two)) = 0
   \<and> 0 \<notin> set (activePowerups (update demo_run 6500 16 demo_two))
   \<and> 1 \<in> set (activePowerups (update demo_run 6500 16 demo_two))
   \<and> activePowerups (deactivatePowerup demo_run 1 0 demo_two) = [0]"
proof -
  have h2: "list_all (\<lambda>x. x < nextObject demo_two) (activePowerups demo_two)"
    by (simp add: two_fields)
  have h0: "list_all (\<lambda>x. x < nextObject demo_spawned) (activePowerups demo_spawned)"
    by (simp add: spawned_fields)
  have sp: "activePowerups demo_two = [] @ 0 # [1]" by (simp add: two_fields)
  have c0: "reversals_of 1 (calls demo_two) = 0"
    by (simp add: two_fields reversals_of_def)
  have w2: "activatePowerup demo_run 0 2 (activatePowerup demo_run 0 1 demo_spawned) = demo_two"
    by (simp add: demo_two_def demo_one_def)
  have A: "activePowerups (deactivatePowerup demo_run 0 0 demo_two) = [1]
      \<and> reversals_of 1 (calls (deactivatePowerup demo_run 0 0 demo_two)) = 0"
    using deactivatePowerup_removes_by_identity
      [OF demo_frame h2, of 0 0 2 1, THEN conjunct1, rule_format, of "[]" "[1]"] sp c0
    by (simp add: reversals_of_other)
  have B: "0 \<notin> set (activePowerups (update demo_run 6500 16 demo_two))
      \<and> 1 \<in> set (activePowerups (update demo_run 6500 16 demo_two))
      \<and> activePowerups (deactivatePowerup demo_run 1 0 demo_two) = [0]"
    using deactivatePowerup_removes_by_identity [OF demo_frame h0, of 0 0 2 1]
    unfolding Let_def w2 by (simp add: spawned_fields)
  from A B demo_frame h2 h0 sp show ?thesis by simp
qed

section \<open>The reversal runs after the removal\<close>

text \<open>
  Claim C9. In \<open>deactivatePowerup\<close> the entry is spliced out before \<open>effect(player, false)\<close>
  is invoked: for every entry present in an active set that holds each object once, and for
  every effect whatsoever, the state in which the reversal starts to run does not hold the
  entry any more, so a call of \<open>deactivatePowerup\<close> on the same entry made there (by any
  code, with any player) changes nothing. A reversal effect whose body calls
  \<open>deactivatePowerup\<close> on its own entry, to any nesting depth, therefore ends in that very
  state, with exactly one reversal more in the trace.
\<close>

theorem reversal_runs_after_removal:
  assumes d: "distinct (activePowerups w)" and m: "r \<in> set (activePowerups w)"
  shows "deactivatePowerup run r plr w =
           run (reversal w r plr) (at_reversal r plr (indexOf (activePowerups w) r) w)
       \<and> r \<notin> set (activePowerups (at_reversal r plr (indexOf (activePowerups w) r) w))
       \<and> deactivatePowerup run' r plr' (at_reversal r plr (indexOf (activePowerups w) r) w) =
           at_reversal r plr (indexOf (activePowerups w) r) w
       \<and> deactivatePowerup (reentrant n) r plr w =
           at_reversal r plr (indexOf (activePowerups w) r) w
       \<and> reversals_of r (calls (deactivatePowerup (reentrant n) r plr w)) =
           reversals_of r (calls w) + 1"
proof -
  let ?w1 = "at_reversal r plr (indexOf (activePowerups w) r) w"
  have ne: "indexOf (activePowerups w) r \<noteq> - 1"
    using m by (simp add: indexOf_absent_iff)
  have eq: "\<And>run. deactivatePowerup run r plr w = run (reversal w r plr) ?w1"
    using ne by (simp add: deactivatePowerup_def invoke_def at_reversal_def reversal_def Let_def)
  have act: "activePowerups ?w1 = remove1 r (activePowerups w)"
    using splice_indexOf [OF m] by (simp add: at_reversal_def)
  have gone: "r \<notin> set (activePowerups ?w1)"
    unfolding act using d by simp
  have noop: "\<And>run plr. deactivatePowerup run r plr ?w1 = ?w1"
    by (rule deactivate_absent [OF gone])
  have re: "reentrant n (reversal w r plr) ?w1 = ?w1"
    by (cases n) (simp_all add: reversal_def [of w r plr] noop)
  have cnt: "reversals_of r (calls ?w1) = reversals_of r (calls w) + 1"
    by (simp add: at_reversal_def reversals_of_def)
  show ?thesis
    using eq [of run] gone noop [of run' plr'] eq [of "reentrant n"] re cnt by simp
qed

theorem reversal_runs_after_removal_witness:
  "distinct (activePowerups demo_one) \<and> 0 \<in> set (activePowerups demo_one)
   \<and> activePowerups (deactivatePowerup (reentrant 3) 0 0 demo_one) = []
   \<and> calls (deactivatePowerup (reentrant 3) 0 0 demo_one) =
       [\<lparr>receiver = None, fn = 7, subject = 0, activating = True\<rparr>,
        \<lparr>receiver = Some 0, fn = 7, subject = 0, activating = False\<rparr>]"
proof -
  have d: "distinct (activePowerups demo_one)" by (simp add: one_fields)
  have m: "0 \<in> set (activePowerups demo_one)" by (simp add: one_fields)
  have e: "deactivatePowerup (reentrant 3) 0 0 demo_one =
      at_reversal 0 0 (indexOf (activePowerups demo_one) 0) demo_one"
    using reversal_runs_after_removal [OF d m, of "reentrant 3" 0 "reentrant 3" 0 3]
    by blast
  show ?thesis
    unfolding e using d m
    by (simp add: at_reversal_def indexOf_def splice_array_def one_fields)
qed

section \<open>One object through any sequence of events\<close>

lemma create_fields:
  "activePowerups (createPowerup type x y w) = activePowerups w"
  "nextObject (createPowerup type x y w) = nextObject w"
  "calls (createPowerup type x y w) = calls w"
  "objects (createPowerup type x y w) = objects w"
  by (simp_all add: createPowerup_def Let_def split: property.split)

lemma filter_absent: "r \<notin> set xs \<Longrightarrow> filter (\<lambda>x. \<not> x = r) xs = xs"
  by (induction xs) auto

lemma distinct_remove1_filter: "distinct xs \<Longrightarrow> remove1 r xs = filter (\<lambda>x. \<not> x = r) xs"
  by (induction xs) (auto simp: filter_absent)

lemma distinct_filter_eq:
  "distinct xs \<Longrightarrow> filter (\<lambda>x. x = r) xs = (if r \<in> set xs then [r] else [])"
  by (induction xs) auto

lemma deactivate_pattern:
  assumes f: "effect_frame run" and d: "distinct (activePowerups w)"
  shows "activePowerups (deactivatePowerup run r plr w) =
           filter (\<lambda>x. \<not> x = r) (activePowerups w)
       \<and> calls (deactivatePowerup run r plr w) =
           calls w @ map (\<lambda>x. reversal w x plr) (filter (\<lambda>x. x = r) (activePowerups w))
       \<and> nextObject (deactivatePowerup run r plr w) = nextObject w
       \<and> objects (deactivatePowerup run r plr w) = objects w"
  by (simp add: deactivate_fields [OF f] distinct_remove1_filter [OF d] distinct_filter_eq [OF d])

lemma removal_none:
  assumes "activePowerups w' = activePowerups w" and "calls w' = calls w"
  shows "\<exists>P plr. activePowerups w' = filter (\<lambda>x. \<not> P x) (activePowerups w)
                \<and> calls w' = calls w @ map (\<lambda>x. reversal w x plr) (filter P (activePowerups w))"
  by (rule exI [of _ "\<lambda>_. False"], rule exI [of _ 0]) (simp add: assms)

lemma removal_some:
  assumes "activePowerups w' = filter (\<lambda>x. \<not> P x) (activePowerups w)"
    and "calls w' = calls w @ map (\<lambda>x. reversal w x plr) (filter P (activePowerups w))"
  shows "\<exists>P plr. activePowerups w' = filter (\<lambda>x. \<not> P x) (activePowerups w)
                \<and> calls w' = calls w @ map (\<lambda>x. reversal w x plr) (filter P (activePowerups w))"
  using assms by blast

text \<open>
  Every step is either an activation, which pushes the next free object, or a removal: some
  of the entries leave the active set and the reversal of each of them is called.
\<close>

lemma step_pattern:
  assumes f: "effect_frame run" and d: "distinct (activePowerups w)"
  shows "(activePowerups (step run w e) = activePowerups w @ [nextObject w]
          \<and> nextObject (step run w e) = Suc (nextObject w)
          \<and> (\<forall>x. x < nextObject w \<longrightarrow> objects (step run w e) x = objects w x)
          \<and> (\<exists>c. receiver c = None \<and> calls (step run w e) = calls w @ [c]))
       \<or> (nextObject (step run w e) = nextObject w
          \<and> objects (step run w e) = objects w
          \<and> (\<exists>P plr. activePowerups (step run w e) = filter (\<lambda>x. \<not> P x) (activePowerups w)
                \<and> calls (step run w e) =
                    calls w @ map (\<lambda>x. reversal w x plr) (filter P (activePowerups w))))"
proof (cases e)
  case (Spawn type x y)
  have "\<exists>P plr. activePowerups (step run w e) = filter (\<lambda>x. \<not> P x) (activePowerups w)
                \<and> calls (step run w e) =
                    calls w @ map (\<lambda>x. reversal w x plr) (filter P (activePowerups w))"
    by (rule removal_none) (simp_all add: Spawn create_fields)
  then show ?thesis by (simp add: Spawn create_fields)
next
  case (Overlap plr powerup)
  let ?c = "\<lparr>receiver = None, fn = data_effect (sprites w powerup),
             subject = plr, activating = True\<rparr>"
  have "receiver ?c = None \<and> calls (step run w e) = calls w @ [?c]"
    by (simp add: Overlap activate_fields [OF f])
  then have "\<exists>c. receiver c = None \<and> calls (step run w e) = calls w @ [c]" by blast
  then show ?thesis by (simp add: Overlap activate_fields [OF f])
next
  case (TimerFires i)
  show ?thesis
  proof (cases "i < length (timers w)")
    case True
    let ?w' = "w\<lparr>timers := take i (timers w) @ drop (Suc i) (timers w)\<rparr>"
    have d': "distinct (activePowerups ?w')" using d by simp
    have s: "step run w e =
        deactivatePowerup run (target (timers w ! i)) (target_player (timers w ! i)) ?w'"
      by (simp add: TimerFires fire_timer_def True Let_def)
    have r: "\<And>x p. reversal ?w' x p = reversal w x p" by (simp add: reversal_def)
    note p = deactivate_pattern [OF f d', of "target (timers w ! i)" "target_player (timers w ! i)",
        unfolded r, folded s]
    have "\<exists>P plr. activePowerups (step run w e) = filter (\<lambda>x. \<not> P x) (activePowerups w)
                \<and> calls (step run w e) =
                    calls w @ map (\<lambda>x. reversal w x plr) (filter P (activePowerups w))"
      by (rule removal_some [of _ "\<lambda>x. x = target (timers w ! i)" _ "target_player (timers w ! i)"])
         (use p in simp_all)
    then show ?thesis using p by simp
  next
    case False
    have "\<exists>P plr. activePowerups (step run w e) = filter (\<lambda>x. \<not> P x) (activePowerups w)
                \<and> calls (step run w e) =
                    calls w @ map (\<lambda>x. reversal w x plr) (filter P (activePowerups w))"
      by (rule removal_none) (simp_all add: TimerFires fire_timer_def False)
    then show ?thesis by (simp add: TimerFires fire_timer_def False)
  qed
next
  case (Sweep time delta)
  have "\<exists>P plr. activePowerups (step run w e) = filter (\<lambda>x. \<not> P x) (activePowerups w)
                \<and> calls (step run w e) =
                    calls w @ map (\<lambda>x. reversal w x plr) (filter P (activePowerups w))"
    by (rule removal_some [of _ "\<lambda>x. time \<ge> expirationTime (objects w x)" _ "player w"])
       (simp_all add: Sweep update_fields [OF f] not_le)
  then show ?thesis by (simp add: Sweep update_fields [OF f])
next
  case (Deactivate r plr)
  note p = deactivate_pattern [OF f d, of r plr]
  have "\<exists>P plr. activePowerups (step run w e) = filter (\<lambda>x. \<not> P x) (activePowerups w)
                \<and> calls (step run w e) =
                    calls w @ map (\<lambda>x. reversal w x plr) (filter P (activePowerups w))"
    by (rule removal_some [of _ "\<lambda>x. x = r" _ plr]) (use p in \<open>simp_all add: Deactivate\<close>)
  then show ?thesis using p by (simp add: Deactivate)
next
  case (Clock t)
  have "\<exists>P plr. activePowerups (step run w e) = filter (\<lambda>x. \<not> P x) (activePowerups w)
                \<and> calls (step run w e) =
                    calls w @ map (\<lambda>x. reversal w x plr) (filter P (activePowerups w))"
    by (rule removal_none) (simp_all add: Clock)
  then show ?thesis by (simp add: Clock)
qed


lemma well_formed_activation:
  assumes wf: "well_formed w"
    and a: "activePowerups w' = activePowerups w @ [nextObject w]"
    and n: "nextObject w' = Suc (nextObject w)"
    and c: "receiver c = None" "calls w' = calls w @ [c]"
  shows "well_formed w'"
proof -
  from wf have d: "distinct (activePowerups w)"
    and b: "\<forall>x\<in>set (activePowerups w). x < nextObject w"
    and t: "\<forall>k\<in>set (calls w). case receiver k of None \<Rightarrow> True | Some x \<Rightarrow> x < nextObject w"
    by (simp_all add: well_formed_def list_all_iff)
  have d': "distinct (activePowerups w')" using d b by (auto simp: a)
  have b': "\<forall>x\<in>set (activePowerups w'). x < nextObject w'" using b by (auto simp: a n)
  have t': "\<forall>k\<in>set (calls w'). case receiver k of None \<Rightarrow> True | Some x \<Rightarrow> x < nextObject w'"
    using t c by (auto simp: n split: option.splits)
  show ?thesis using d' b' t' by (simp add: well_formed_def list_all_iff)
qed

lemma well_formed_removal:
  assumes wf: "well_formed w"
    and n: "nextObject w' = nextObject w"
    and a: "activePowerups w' = filter (\<lambda>x. \<not> P x) (activePowerups w)"
    and c: "calls w' = calls w @ map (\<lambda>x. reversal w x plr) (filter P (activePowerups w))"
  shows "well_formed w'"
proof -
  from wf have d: "distinct (activePowerups w)"
    and b: "\<forall>x\<in>set (activePowerups w). x < nextObject w"
    and t: "\<forall>k\<in>set (calls w). case receiver k of None \<Rightarrow> True | Some x \<Rightarrow> x < nextObject w"
    by (simp_all add: well_formed_def list_all_iff)
  have d': "distinct (activePowerups w')" using d by (simp add: a)
  have b': "\<forall>x\<in>set (activePowerups w'). x < nextObject w'" using b by (simp add: a n)
  have t': "\<forall>k\<in>set (calls w'). case receiver k of None \<Rightarrow> True | Some x \<Rightarrow> x < nextObject w'"
    unfolding n c using t b by (auto simp: reversal_def)
  show ?thesis using d' b' t' by (simp add: well_formed_def list_all_iff)
qed

text \<open>
  Well-formedness is what the constructor establishes and every event keeps: the states the
  theorems below assume are the states a manager can be in.
\<close>

lemma well_formed_new:
  assumes "list_all (\<lambda>c. case receiver c of None \<Rightarrow> True | Some x \<Rightarrow> x < nextObject scene)
             (calls scene)"
  shows "well_formed (PowerupManager scene pdata)"
proof -
  have n: "nextObject (PowerupManager scene pdata) = nextObject scene"
    by (simp add: PowerupManager_def)
  have "list_all (\<lambda>c. case receiver c of None \<Rightarrow> True
                         | Some x \<Rightarrow> x < nextObject (PowerupManager scene pdata))
          (calls (PowerupManager scene pdata))"
    unfolding n using assms by (simp add: PowerupManager_def)
  then show ?thesis
    unfolding well_formed_def by (simp add: PowerupManager_def)
qed

lemma well_formed_step:
  assumes f: "effect_frame run" and wf: "well_formed w"
  shows "well_formed (step run w e)"
proof -
  from wf have d: "distinct (activePowerups w)" by (simp add: well_formed_def)
  from step_pattern [OF f d, of e] show ?thesis
  proof (elim disjE conjE exE)
    fix c
    assume "activePowerups (step run w e) = activePowerups w @ [nextObject w]"
      and "nextObject (step run w e) = Suc (nextObject w)"
      and "receiver c = None" and "calls (step run w e) = calls w @ [c]"
    then show ?thesis by (rule well_formed_activation [OF wf])
  next
    fix P plr
    assume "nextObject (step run w e) = nextObject w"
      and "activePowerups (step run w e) = filter (\<lambda>x. \<not> P x) (activePowerups w)"
      and "calls (step run w e) =
             calls w @ map (\<lambda>x. reversal w x plr) (filter P (activePowerups w))"
    then show ?thesis by (rule well_formed_removal [OF wf])
  qed
qed

lemma well_formed_execute:
  assumes f: "effect_frame run"
  shows "well_formed w \<Longrightarrow> well_formed (execute run es w)"
proof (induction es arbitrary: w)
  case Nil
  then show ?case by (simp add: execute_def)
next
  case (Cons e es)
  have "execute run (e # es) w = execute run es (step run w e)"
    by (simp add: execute_def)
  with Cons.IH [OF well_formed_step [OF f Cons.prems]] show ?case by simp
qed

lemma lifecycle_activation:
  assumes ok: "lifecycle_ok r w"
    and a: "activePowerups w' = activePowerups w @ [nextObject w]"
    and n: "nextObject w' = Suc (nextObject w)"
    and c: "receiver c = None" "calls w' = calls w @ [c]"
  shows "lifecycle_ok r w'" and "state_of r w' = state_of r w"
proof -
  from ok have wf: "well_formed w" and lt: "r < nextObject w"
    and cnt: "reversals_of r (calls w) = (case state_of r w of Active \<Rightarrow> 0 | Deactivated \<Rightarrow> 1)"
    by (simp_all add: lifecycle_ok_def)
  have wf': "well_formed w'" by (rule well_formed_activation [OF wf a n c])
  show st: "state_of r w' = state_of r w" using lt by (simp add: state_of_def a)
  have "reversals_of r (calls w') = reversals_of r (calls w)"
    using c by (simp add: reversals_of_def)
  with wf' lt cnt st show "lifecycle_ok r w'" by (simp add: lifecycle_ok_def n)
qed

lemma lifecycle_removal:
  assumes ok: "lifecycle_ok r w"
    and n: "nextObject w' = nextObject w"
    and a: "activePowerups w' = filter (\<lambda>x. \<not> P x) (activePowerups w)"
    and c: "calls w' = calls w @ map (\<lambda>x. reversal w x plr) (filter P (activePowerups w))"
  shows "lifecycle_ok r w'" and "state_of r w = Deactivated \<Longrightarrow> state_of r w' = Deactivated"
proof -
  from ok have wf: "well_formed w" and lt: "r < nextObject w"
    and cnt: "reversals_of r (calls w) = (case state_of r w of Active \<Rightarrow> 0 | Deactivated \<Rightarrow> 1)"
    by (simp_all add: lifecycle_ok_def)
  from wf have d: "distinct (activePowerups w)" by (simp add: well_formed_def)
  have wf': "well_formed w'" by (rule well_formed_removal [OF wf n a c])
  have k: "reversals_of r (calls w') =
      reversals_of r (calls w) + (if r \<in> set (activePowerups w) \<and> P r then 1 else 0)"
    unfolding c reversals_of_append reversals_of_map
    by (simp only: distinct_occurs_once [OF d])
  show "state_of r w = Deactivated \<Longrightarrow> state_of r w' = Deactivated"
    by (simp add: state_of_def a split: if_splits)
  show "lifecycle_ok r w'"
    using wf' lt cnt k by (auto simp: lifecycle_ok_def n state_of_def a)
qed

lemma lifecycle_step:
  assumes f: "effect_frame run" and ok: "lifecycle_ok r w"
  shows "lifecycle_ok r (step run w e)"
    and "objects (step run w e) r = objects w r"
    and "state_of r w = Deactivated \<Longrightarrow> state_of r (step run w e) = Deactivated"
proof -
  from ok have d: "distinct (activePowerups w)" and lt: "r < nextObject w"
    by (simp_all add: lifecycle_ok_def well_formed_def)
  from step_pattern [OF f d, of e]
  have "lifecycle_ok r (step run w e) \<and> objects (step run w e) r = objects w r
      \<and> (state_of r w = Deactivated \<longrightarrow> state_of r (step run w e) = Deactivated)"
  proof (elim disjE conjE exE)
    fix c
    assume a: "activePowerups (step run w e) = activePowerups w @ [nextObject w]"
      and n: "nextObject (step run w e) = Suc (nextObject w)"
      and o: "\<forall>x. x < nextObject w \<longrightarrow> objects (step run w e) x = objects w x"
      and c: "receiver c = None" "calls (step run w e) = calls w @ [c]"
    from lifecycle_activation [OF ok a n c] o lt show ?thesis by simp
  next
    fix P plr
    assume n: "nextObject (step run w e) = nextObject w"
      and o: "objects (step run w e) = objects w"
      and a: "activePowerups (step run w e) = filter (\<lambda>x. \<not> P x) (activePowerups w)"
      and c: "calls (step run w e) =
                calls w @ map (\<lambda>x. reversal w x plr) (filter P (activePowerups w))"
    from lifecycle_removal [OF ok n a c] o show ?thesis by simp
  qed
  then show "lifecycle_ok r (step run w e)"
    and "objects (step run w e) r = objects w r"
    and "state_of r w = Deactivated \<Longrightarrow> state_of r (step run w e) = Deactivated"
    by simp_all
qed

lemma lifecycle_execute:
  assumes f: "effect_frame run"
  shows "lifecycle_ok r w \<Longrightarrow>
     lifecycle_ok r (execute run es w)
     \<and> objects (execute run es w) r = objects w r
     \<and> (state_of r w = Deactivated \<longrightarrow> state_of r (execute run es w) = Deactivated)"
proof (induction es arbitrary: w)
  case Nil
  then show ?case by (simp add: execute_def)
next
  case (Cons e es)
  have e: "execute run (e # es) w = execute run es (step run w e)"
    by (simp add: execute_def)
  note s = lifecycle_step [OF f Cons.prems, of e]
  from Cons.IH [OF s(1)] s(2) s(3) show ?case unfolding e by simp
qed

lemma fire_timer_active:
  assumes f: "effect_frame run" and i: "i < length (timers w)"
  shows "activePowerups (fire_timer run i w) = remove1 (target (timers w ! i)) (activePowerups w)"
  by (simp add: fire_timer_def Let_def i deactivate_fields [OF f])

lemma execute_append: "execute run (es @ es') w = execute run es' (execute run es w)"
  by (simp add: execute_def)

lemma execute_snoc: "execute run (es @ [e]) w = step run (execute run es w) e"
  by (simp add: execute_def)

lemma lifecycle_start:
  assumes f: "effect_frame run" and wf: "well_formed w"
  shows "lifecycle_ok (nextObject w) (activatePowerup run plr powerup w)"
    and "state_of (nextObject w) (activatePowerup run plr powerup w) = Active"
    and "reversals_of (nextObject w) (calls (activatePowerup run plr powerup w)) = 0"
proof -
  let ?w1 = "activatePowerup run plr powerup w"
  from wf have t: "\<forall>k\<in>set (calls w). case receiver k of None \<Rightarrow> True | Some x \<Rightarrow> x < nextObject w"
    by (simp add: well_formed_def list_all_iff)
  have wf': "well_formed ?w1"
    by (rule well_formed_activation [OF wf, of _ "\<lparr>receiver = None,
          fn = data_effect (sprites w powerup), subject = plr, activating = True\<rparr>"])
       (simp_all add: activate_fields [OF f])
  have z: "filter (\<lambda>c. receiver c = Some (nextObject w) \<and> \<not> activating c) (calls w) = []"
    using t by (auto simp: filter_empty_conv split: option.splits)
  show st: "state_of (nextObject w) ?w1 = Active"
    by (simp add: state_of_def activate_fields [OF f])
  show cnt: "reversals_of (nextObject w) (calls ?w1) = 0"
    by (simp add: reversals_of_def activate_fields [OF f] z)
  show "lifecycle_ok (nextObject w) ?w1"
    using wf' st cnt by (simp add: lifecycle_ok_def activate_fields [OF f])
qed

text \<open>
  Claim C2. Take any well-formed state, let \<open>activatePowerup\<close> create an object there, and
  let any sequence of events follow: spawns, further activations, deliveries of pending timer
  calls in any order and at any moment, sweeps with any time, direct calls of
  \<open>deactivatePowerup\<close>, clock changes (the effects keep to the subject). The object starts
  Active with no reversal in the trace. After every sequence the trace holds no reversal of
  it while it is Active and exactly one when it is Deactivated, so no sequence reverses it a
  second time. Deactivated is terminal: whatever follows, the object stays Deactivated with
  its one reversal. And both triggers do deactivate it: after a sweep whose time has reached
  its expiration time, and after the delivery of a pending timer call that targets it, the
  object is Deactivated with exactly one reversal, whichever came first.
\<close>

theorem reversal_fires_exactly_once:
  assumes f: "effect_frame run" and wf: "well_formed w"
  shows "let r = nextObject w; w1 = activatePowerup run plr powerup w in
           state_of r w1 = Active
         \<and> reversals_of r (calls w1) = 0
         \<and> (\<forall>es. reversals_of r (calls (execute run es w1)) =
                   (case state_of r (execute run es w1) of Active \<Rightarrow> 0 | Deactivated \<Rightarrow> 1))
         \<and> (\<forall>es es'. state_of r (execute run es w1) = Deactivated \<longrightarrow>
                 state_of r (execute run (es @ es') w1) = Deactivated
               \<and> reversals_of r (calls (execute run (es @ es') w1)) = 1)
         \<and> (\<forall>es time delta. expirationTime (objects w1 r) \<le> time \<longrightarrow>
                 state_of r (execute run (es @ [Sweep time delta]) w1) = Deactivated
               \<and> reversals_of r (calls (execute run (es @ [Sweep time delta]) w1)) = 1)
         \<and> (\<forall>es i. i < length (timers (execute run es w1))
                   \<and> target (timers (execute run es w1) ! i) = r \<longrightarrow>
                 state_of r (execute run (es @ [TimerFires i]) w1) = Deactivated
               \<and> reversals_of r (calls (execute run (es @ [TimerFires i]) w1)) = 1)"
proof -
  let ?r = "nextObject w"
  let ?w1 = "activatePowerup run plr powerup w"
  note start = lifecycle_start [OF f wf, of plr powerup]
  have ok: "\<And>es. lifecycle_ok ?r (execute run es ?w1)"
    using lifecycle_execute [OF f start(1)] by blast
  have obj: "\<And>es. objects (execute run es ?w1) ?r = objects ?w1 ?r"
    using lifecycle_execute [OF f start(1)] by blast
  have count: "\<And>es. reversals_of ?r (calls (execute run es ?w1)) =
      (case state_of ?r (execute run es ?w1) of Active \<Rightarrow> 0 | Deactivated \<Rightarrow> 1)"
    using ok by (simp add: lifecycle_ok_def)
  have once: "\<And>es. state_of ?r (execute run es ?w1) = Deactivated \<Longrightarrow>
      reversals_of ?r (calls (execute run es ?w1)) = 1"
    using count by simp
  have terminal: "\<And>es es'. state_of ?r (execute run es ?w1) = Deactivated \<Longrightarrow>
      state_of ?r (execute run (es @ es') ?w1) = Deactivated"
    unfolding execute_append using lifecycle_execute [OF f ok] by blast
  have sweep: "\<And>es time delta. expirationTime (objects ?w1 ?r) \<le> time \<Longrightarrow>
      state_of ?r (execute run (es @ [Sweep time delta]) ?w1) = Deactivated"
    unfolding execute_snoc by (simp add: state_of_def update_fields [OF f] obj)
  have timer: "\<And>es i. i < length (timers (execute run es ?w1)) \<Longrightarrow>
      target (timers (execute run es ?w1) ! i) = ?r \<Longrightarrow>
      state_of ?r (execute run (es @ [TimerFires i]) ?w1) = Deactivated"
  proof -
    fix es i
    assume i: "i < length (timers (execute run es ?w1))"
      and tg: "target (timers (execute run es ?w1) ! i) = ?r"
    have d: "distinct (activePowerups (execute run es ?w1))"
      using ok [of es] by (simp add: lifecycle_ok_def well_formed_def)
    show "state_of ?r (execute run (es @ [TimerFires i]) ?w1) = Deactivated"
      unfolding execute_snoc using d
      by (simp add: state_of_def fire_timer_active [OF f i] tg)
  qed
  show ?thesis
    unfolding Let_def
    using start(2) start(3) count terminal sweep timer once by blast
qed

theorem reversal_fires_exactly_once_witness:
  "effect_frame demo_run \<and> well_formed demo_spawned
   \<and> state_of 0 demo_one = Active
   \<and> reversals_of 0 (calls (execute demo_run [Sweep 5500 16] demo_one)) = 0
   \<and> state_of 0 (execute demo_run [Sweep 5500 16, TimerFires 0] demo_one) = Deactivated
   \<and> reversals_of 0 (calls (execute demo_run [Sweep 5500 16, TimerFires 0] demo_one)) = 1
   \<and> reversals_of 0 (calls (execute demo_run
         [Sweep 5500 16, TimerFires 0, Sweep 6000 16, Sweep 7000 16] demo_one)) = 1
   \<and> reversals_of 0 (calls (execute demo_run
         [Sweep 6000 16, TimerFires 0, Deactivate 0 0] demo_one)) = 1"
proof -
  have wf: "well_formed demo_spawned"
    by (simp add: well_formed_def spawned_fields)
  have n: "nextObject demo_spawned = 0" by (simp add: spawned_fields)
  have w1: "activatePowerup demo_run 0 1 demo_spawned = demo_one" by (simp add: demo_one_def)
  note T = reversal_fires_exactly_once [OF demo_frame wf, of 0 1, unfolded Let_def n w1]
  note T1 = T [THEN conjunct1]
  note T3 = T [THEN conjunct2, THEN conjunct2, THEN conjunct1, rule_format]
  note T4 = T [THEN conjunct2, THEN conjunct2, THEN conjunct2, THEN conjunct1, rule_format]
  note T5 = T [THEN conjunct2, THEN conjunct2, THEN conjunct2, THEN conjunct2, THEN conjunct1,
      rule_format]
  note T6 = T [THEN conjunct2, THEN conjunct2, THEN conjunct2, THEN conjunct2, THEN conjunct2,
      rule_format]
  have early: "execute demo_run [Sweep 5500 16] demo_one = demo_one"
    by (simp add: execute_def update_def one_fields)
  have a1: "state_of 0 demo_one = Active" by (rule T1)
  have a2: "reversals_of 0 (calls (execute demo_run [Sweep 5500 16] demo_one)) = 0"
    using T3 [of "[Sweep 5500 16]"] a1 by (simp add: early)
  have i: "0 < length (timers (execute demo_run [Sweep 5500 16] demo_one))
      \<and> target (timers (execute demo_run [Sweep 5500 16] demo_one) ! 0) = 0"
    by (simp add: early one_fields)
  have a3: "state_of 0 (execute demo_run [Sweep 5500 16, TimerFires 0] demo_one) = Deactivated
      \<and> reversals_of 0 (calls (execute demo_run [Sweep 5500 16, TimerFires 0] demo_one)) = 1"
    using T6 [of 0 "[Sweep 5500 16]", OF i] by simp
  have a4: "reversals_of 0 (calls (execute demo_run
      [Sweep 5500 16, TimerFires 0, Sweep 6000 16, Sweep 7000 16] demo_one)) = 1"
    using T4 [of "[Sweep 5500 16, TimerFires 0]" "[Sweep 6000 16, Sweep 7000 16]"] a3 by simp
  have e: "expirationTime (objects demo_one 0) \<le> 6000" by (simp add: one_fields)
  have a5: "state_of 0 (execute demo_run [Sweep 6000 16] demo_one) = Deactivated"
    using T5 [of 6000 "[]" 16, OF e] by simp
  have a6: "reversals_of 0 (calls (execute demo_run
      [Sweep 6000 16, TimerFires 0, Deactivate 0 0] demo_one)) = 1"
    using T4 [of "[Sweep 6000 16]" "[TimerFires 0, Deactivate 0 0]"] a5 by simp
  from demo_frame wf a1 a2 a3 a4 a6 show ?thesis by simp
qed

end
